theory Spec2Isabelle
  imports Complex_Main "HOL-Library.Word" "HOL-Library.Log_Nat"
begin

unbundle bit_operations_syntax

section \<open>Basic types of ObjectNameLookup.cpp\<close>

text \<open>
  The program is built for Windows: \<open>wchar_t\<close> is a 16-bit unit, \<open>NTSTATUS\<close> a 32-bit
  \<open>LONG\<close>, a \<open>HANDLE\<close> a pointer-sized value whose null pointer is \<open>0\<close>. C \<open>int\<close> values
  are modelled by \<open>int\<close>; every loop counter of the program stays between \<open>0\<close> and its
  bound, so no counter arithmetic wraps.
\<close>

type_synonym wchar_t = "16 word"
type_synonym wstring = "wchar_t list"
type_synonym NTSTATUS = "32 word"
type_synonym HANDLE = "64 word"

definition nullptr :: HANDLE where
  "nullptr = 0"

text \<open>A wide string literal \<open>L"..."\<close> of ASCII characters.\<close>

definition wide :: "string \<Rightarrow> wstring" where
  "wide s = map (\<lambda>c. of_nat (of_char c)) s"

section \<open>Status checking\<close>

text \<open>
  \<open>NT_ERROR\<close> is the macro of \<open>winternl.h\<close>:
  \<^verbatim>\<open>#define NT_ERROR(Status) ((((ULONG)(Status)) >> 30) == 3)\<close>.
\<close>

definition NT_ERROR :: "NTSTATUS \<Rightarrow> bool" where
  "NT_ERROR status = (drop_bit 30 status = 3)"

datatype NtException = NtException (m_status: NTSTATUS)

definition Check :: "NTSTATUS \<Rightarrow> NtException + unit" where
  "Check status = (if NT_ERROR status then Inl (NtException status) else Inr ())"

section \<open>Collision names\<close>

function MakeNullString_loop :: "int \<Rightarrow> int \<Rightarrow> wstring \<Rightarrow> wstring" where
  "MakeNullString_loop i count ret =
     (if i < count then MakeNullString_loop (i + 1) count (ret @ [0]) else ret)"
  by pat_completeness auto
termination
  by (relation "measure (\<lambda>(i, count, ret). nat (count - i))") auto

declare MakeNullString_loop.simps [simp del]

definition MakeNullString :: "int \<Rightarrow> wstring" where
  "MakeNullString count = MakeNullString_loop 0 count []"

definition MakeCollisionName :: "int \<Rightarrow> wstring" where
  "MakeCollisionName count = MakeNullString count @ wide ''A''"

text \<open>The first loop of \<open>Test6\<close>, which fills the vector \<open>names\<close>.\<close>

function Test6_names_loop :: "int \<Rightarrow> int \<Rightarrow> wstring list \<Rightarrow> wstring list" where
  "Test6_names_loop i collision_count names =
     (if i < collision_count
      then Test6_names_loop (i + 1) collision_count
             (names @ [MakeCollisionName (collision_count - i)])
      else names)"
  by pat_completeness auto
termination
  by (relation "measure (\<lambda>(i, collision_count, names). nat (collision_count - i))") auto

declare Test6_names_loop.simps [simp del]

definition Test6_names :: "int \<Rightarrow> wstring list" where
  "Test6_names collision_count = Test6_names_loop 0 collision_count []"

text \<open>The length of the run of zero characters a name starts with.\<close>

definition zero_run :: "wstring \<Rightarrow> nat" where
  "zero_run name = length (takeWhile (\<lambda>c. c = 0) name)"


section \<open>Argument parsing\<close>

text \<open>
  \<open>atoi\<close> is the C runtime's function: it skips leading white space, reads an optional
  sign and the decimal digits that follow, stops at the first other character, yields \<open>0\<close>
  when there is no digit, and (Windows runtime) yields \<open>INT_MAX\<close> or \<open>INT_MIN\<close> when the
  number does not fit an \<open>int\<close>.
\<close>

definition INT_MAX :: int where
  "INT_MAX = 2147483647"

definition INT_MIN :: int where
  "INT_MIN = - 2147483648"

definition isspace :: "char \<Rightarrow> bool" where
  "isspace c = (c \<in> set [CHR 0x20, CHR 0x09, CHR 0x0A, CHR 0x0B, CHR 0x0C, CHR 0x0D])"

definition isdigit :: "char \<Rightarrow> bool" where
  "isdigit c = (48 \<le> (of_char c :: nat) \<and> (of_char c :: nat) \<le> 57)"

fun atoi_digits :: "int \<Rightarrow> string \<Rightarrow> int" where
  "atoi_digits acc [] = acc"
| "atoi_digits acc (c # cs) =
     (if isdigit c then atoi_digits (10 * acc + (int (of_char c) - 48)) cs else acc)"

definition atoi :: "string \<Rightarrow> int" where
  "atoi s =
     (let t = dropWhile isspace s;
          v = (case t of
                 [] \<Rightarrow> 0
               | c # cs \<Rightarrow>
                   if c = CHR ''-'' then - atoi_digits 0 cs
                   else if c = CHR ''+'' then atoi_digits 0 cs
                   else atoi_digits 0 t)
      in max INT_MIN (min INT_MAX v))"

text \<open>
  \<open>GetArg\<close> compares \<open>args.size()\<close>, a \<open>size_t\<close>, with the \<open>int\<close> \<open>index\<close>, which is
  converted to \<open>size_t\<close> (64 bits) for the comparison and for the subscript.
\<close>

definition GetArg :: "string list \<Rightarrow> int \<Rightarrow> int \<Rightarrow> int" where
  "GetArg args index def_value =
     (let idx = nat (index mod 2 ^ 64)
      in if length args > idx \<and> args ! idx \<noteq> ''_'' then atoi (args ! idx) else def_value)"

section \<open>Timer\<close>

subsection \<open>The type \<open>double\<close>\<close>

text \<open>
  A \<open>double\<close> is an IEEE 754 binary64 number: a finite value (a rational with a
  significand of 53 bits; \<open>Finite 0\<close> is the positive zero), the negative zero, an
  infinity, or not-a-number. The result of an operation is the exact result rounded to
  the nearest such value, to the one with the even significand when two are equally near.
\<close>

datatype double = Finite rat | NegZero | PosInf | NegInf | NaN

text \<open>The binary exponent of a positive number: \<open>2 powi e \<le> x < 2 powi (e + 1)\<close>.\<close>

definition exponent :: "rat \<Rightarrow> int" where
  "exponent x =
     (let (a, b) = quotient_of x;
          k = bitlen a - bitlen b
      in if x < 2 powi k then k - 1 else k)"

definition round_half_even :: "rat \<Rightarrow> int" where
  "round_half_even y =
     (let f = \<lfloor>y\<rfloor>; r = y - of_int f
      in if r < 1 / 2 then f else if 1 / 2 < r then f + 1 else if even f then f else f + 1)"

text \<open>
  Rounding to binary64: the unit in the last place is \<open>2 powi (e - 52)\<close> for the exponent
  \<open>e\<close> of the number, and \<open>2 powi (- 1074)\<close> below the normal range; a result of
  \<open>2 powi 1024\<close> or more is an infinity.
\<close>

definition binary64 :: "rat \<Rightarrow> double" where
  "binary64 x =
     (if x = 0 then Finite 0
      else
        (let e = max (exponent \<bar>x\<bar>) (- 1022);
             ulp = 2 powi (e - 52);
             v = of_int (round_half_even (\<bar>x\<bar> / ulp)) * ulp
         in if 2 powi 1024 \<le> v then (if 0 < x then PosInf else NegInf)
            else if v = 0 then (if 0 < x then Finite 0 else NegZero)
            else Finite (if 0 < x then v else - v)))"

text \<open>The conversion \<open>(double)i\<close> of an integer.\<close>

definition double_of_int :: "int \<Rightarrow> double" where
  "double_of_int i = binary64 (of_int i)"

fun signbit :: "double \<Rightarrow> bool" where
  "signbit (Finite q) = (q < 0)"
| "signbit NegZero = True"
| "signbit PosInf = False"
| "signbit NegInf = True"
| "signbit NaN = False"

fun isinf :: "double \<Rightarrow> bool" where
  "isinf PosInf = True"
| "isinf NegInf = True"
| "isinf x = False"

fun value_of :: "double \<Rightarrow> rat" where
  "value_of (Finite q) = q"
| "value_of x = 0"

definition zero_signed :: "bool \<Rightarrow> double" where
  "zero_signed negative = (if negative then NegZero else Finite 0)"

definition inf_signed :: "bool \<Rightarrow> double" where
  "inf_signed negative = (if negative then NegInf else PosInf)"

text \<open>The division \<open>x / y\<close> of two values of type \<open>double\<close>.\<close>

definition double_div :: "double \<Rightarrow> double \<Rightarrow> double" where
  "double_div x y =
     (if x = NaN \<or> y = NaN then NaN
      else if isinf x then (if isinf y then NaN else inf_signed (signbit x \<noteq> signbit y))
      else if isinf y then zero_signed (signbit x \<noteq> signbit y)
      else if value_of y = 0 then
        (if value_of x = 0 then NaN else inf_signed (signbit x \<noteq> signbit y))
      else if value_of x = 0 then zero_signed (signbit x \<noteq> signbit y)
      else binary64 (value_of x / value_of y))"

subsection \<open>The class \<open>Timer\<close>\<close>

text \<open>
  A \<open>time_point\<close> of \<open>high_resolution_clock\<close> is a count of nanoseconds (the clock of the
  Microsoft library is \<open>steady_clock\<close>, whose period is \<open>std::nano\<close>), and so is the
  difference of two; the count is a \<open>long long\<close>. The readings of the clock are not negative,
  so that the difference of two readings is in the range of the type; \<open>long_long\<close> is the
  64-bit representation, which is all that the type can hold of any other difference.
  \<open>duration_cast<microseconds>\<close> divides the count by 1000 as C++ divides integers,
  rounding towards zero.
\<close>

definition long_long :: "int \<Rightarrow> int" where
  "long_long x = (x + 2 ^ 63) mod 2 ^ 64 - 2 ^ 63"

definition duration_cast_microseconds :: "int \<Rightarrow> int" where
  "duration_cast_microseconds ns = (if 0 \<le> ns then ns div 1000 else - ((- ns) div 1000))"

record Timer =
  m_start :: int

text \<open>\<open>Timer::GetTime\<close>, given the value \<open>stop\<close> that its clock reading returns.\<close>

definition GetTime_at :: "Timer \<Rightarrow> int \<Rightarrow> int \<Rightarrow> double" where
  "GetTime_at timer stop iterations =
     (let result = duration_cast_microseconds (long_long (stop - m_start timer))
      in double_div (double_of_int result) (double_of_int iterations))"

section \<open>ScopedHandle\<close>

text \<open>
  The class has one field. Its default constructor leaves the field unset, so the value it
  then holds is a parameter of the model; \<open>ptr()\<close> lets a native call write the field.
  The explicit constructor and the move constructor set the field. The copy constructor
  and the copy assignment are deleted. The destructor calls \<open>CloseHandle\<close> with the field,
  whatever it holds (\<open>destroy\<close> below).
\<close>

record ScopedHandle =
  m_handle :: HANDLE

definition ScopedHandle_default :: "HANDLE \<Rightarrow> ScopedHandle" where
  "ScopedHandle_default indeterminate = \<lparr>m_handle = indeterminate\<rparr>"

definition ScopedHandle_explicit :: "HANDLE \<Rightarrow> ScopedHandle" where
  "ScopedHandle_explicit handle = \<lparr>m_handle = handle\<rparr>"

text \<open>The move constructor: the new object, and \<open>other\<close> as the constructor leaves it.\<close>

definition ScopedHandle_move :: "ScopedHandle \<Rightarrow> ScopedHandle \<times> ScopedHandle" where
  "ScopedHandle_move other = (\<lparr>m_handle = m_handle other\<rparr>, other\<lparr>m_handle := nullptr\<rparr>)"

definition get :: "ScopedHandle \<Rightarrow> HANDLE" where
  "get this = m_handle this"

text \<open>A write through the pointer that \<open>ptr()\<close> returns.\<close>

definition ptr_store :: "HANDLE \<Rightarrow> ScopedHandle \<Rightarrow> ScopedHandle" where
  "ptr_store value this = this\<lparr>m_handle := value\<rparr>"

section \<open>The environment: native calls, the clock, standard output\<close>

text \<open>
  The operating system is not part of the program. Its answers are a parameter: the
  \<open>n\<close>-th native call of a run gets the reply \<open>os n\<close> (the status, the value found in the
  handle the call was given to fill, and for \<open>NtQueryObject\<close> the name in the buffer), the
  \<open>n\<close>-th reading of the clock gets \<open>clock n\<close>. Everything a run does to its environment
  is appended to \<open>trace\<close>.

  A \<open>CloseHandle\<close> event is a call with a handle other than null. A call with the null
  handle fails and releases nothing; the destructors of moved-from objects make such
  calls, and how many there are depends on copy elision and on the growth of the vectors.
\<close>

record reply =
  r_status :: NTSTATUS
  r_handle :: HANDLE
  r_name :: wstring

datatype syscall =
    NtCreateDirectoryObjectEx wstring HANDLE HANDLE
  | NtOpenDirectoryObject wstring HANDLE
  | NtCreateSymbolicLinkObject wstring HANDLE wstring
  | NtCreateEvent wstring HANDLE
  | NtOpenEvent wstring
  | NtQueryObject HANDLE

text \<open>
  One call of \<open>printf\<close>, by its format: \<open>"%.2fus for %d iterations.\n"\<close>, \<open>"%zu,%f\n"\<close>,
  \<open>"%d,%f\n"\<close>, \<open>"%f\n"\<close>, or a text without a floating-point field.
\<close>

datatype printed =
    Us_for_iterations double int
  | Size_and_time nat double
  | Int_and_time int double
  | Time double
  | Text string

datatype event =
    Call syscall reply
  | CloseHandle HANDLE
  | Now int
  | Printf printed

record world =
  os :: "nat \<Rightarrow> reply"
  clock :: "nat \<Rightarrow> int"
  calls :: nat
  reads :: nat
  trace :: "event list"

definition native :: "syscall \<Rightarrow> world \<Rightarrow> reply \<times> world" where
  "native c w =
     (let r = os w (calls w)
      in (r, w\<lparr>calls := Suc (calls w), trace := trace w @ [Call c r]\<rparr>))"

definition now :: "world \<Rightarrow> int \<times> world" where
  "now w =
     (let t = clock w (reads w)
      in (t, w\<lparr>reads := Suc (reads w), trace := trace w @ [Now t]\<rparr>))"

definition printf :: "printed \<Rightarrow> world \<Rightarrow> world" where
  "printf out w = w\<lparr>trace := trace w @ [Printf out]\<rparr>"

text \<open>The destructor of the \<open>ScopedHandle\<close> that holds \<open>h\<close>.\<close>

definition destroy :: "HANDLE \<Rightarrow> world \<Rightarrow> world" where
  "destroy h w = (if h = nullptr then w else w\<lparr>trace := trace w @ [CloseHandle h]\<rparr>)"

text \<open>The destructor of a \<open>vector<ScopedHandle>\<close>, first element first.\<close>

definition destroy_all :: "HANDLE list \<Rightarrow> world \<Rightarrow> world" where
  "destroy_all hs w = fold destroy hs w"

definition Timer_start :: "world \<Rightarrow> Timer \<times> world" where
  "Timer_start w = (let (t, w1) = now w in (\<lparr>m_start = t\<rparr>, w1))"

definition GetTime :: "Timer \<Rightarrow> int \<Rightarrow> world \<Rightarrow> double \<times> world" where
  "GetTime timer iterations w =
     (let (stop, w1) = now w in (GetTime_at timer stop iterations, w1))"

section \<open>Namespace operations\<close>

text \<open>
  \<open>UnicodeString\<close> stores the length in bytes in a 16-bit field; the native call reads
  that many bytes of the name.
\<close>

definition UnicodeString :: "wstring \<Rightarrow> wstring" where
  "UnicodeString str = take (((length str * 2) mod 65536) div 2) str"

text \<open>
  Each operation declares a \<open>ScopedHandle\<close>, lets one native call fill it and checks the
  status. When \<open>Check\<close> throws, the destructor of that handle runs with whatever the
  field holds.
\<close>

definition CreateDirectory ::
    "wstring \<Rightarrow> HANDLE \<Rightarrow> HANDLE \<Rightarrow> world \<Rightarrow> (NtException + HANDLE) \<times> world" where
  "CreateDirectory name root_dir shadow_dir w =
     (let (r, w1) = native (NtCreateDirectoryObjectEx (UnicodeString name) root_dir shadow_dir) w
      in case Check (r_status r) of
           Inl ex \<Rightarrow> (Inl ex, destroy (r_handle r) w1)
         | Inr _ \<Rightarrow> (Inr (r_handle r), w1))"

definition OpenDirectory ::
    "wstring \<Rightarrow> HANDLE \<Rightarrow> world \<Rightarrow> (NtException + HANDLE) \<times> world" where
  "OpenDirectory name root_dir w =
     (let (r, w1) = native (NtOpenDirectoryObject (UnicodeString name) root_dir) w
      in case Check (r_status r) of
           Inl ex \<Rightarrow> (Inl ex, destroy (r_handle r) w1)
         | Inr _ \<Rightarrow> (Inr (r_handle r), w1))"

definition CreateLink ::
    "wstring \<Rightarrow> HANDLE \<Rightarrow> wstring \<Rightarrow> world \<Rightarrow> (NtException + HANDLE) \<times> world" where
  "CreateLink name root_dir target w =
     (let (r, w1) = native (NtCreateSymbolicLinkObject (UnicodeString name) root_dir
                              (UnicodeString target)) w
      in case Check (r_status r) of
           Inl ex \<Rightarrow> (Inl ex, destroy (r_handle r) w1)
         | Inr _ \<Rightarrow> (Inr (r_handle r), w1))"

definition CreateEvent ::
    "wstring \<Rightarrow> HANDLE \<Rightarrow> world \<Rightarrow> (NtException + HANDLE) \<times> world" where
  "CreateEvent name root_dir w =
     (let (r, w1) = native (NtCreateEvent (UnicodeString name) root_dir) w
      in case Check (r_status r) of
           Inl ex \<Rightarrow> (Inl ex, destroy (r_handle r) w1)
         | Inr _ \<Rightarrow> (Inr (r_handle r), w1))"

definition GetName :: "HANDLE \<Rightarrow> world \<Rightarrow> (NtException + wstring) \<times> world" where
  "GetName handle w =
     (let (r, w1) = native (NtQueryObject handle) w
      in case Check (r_status r) of
           Inl ex \<Rightarrow> (Inl ex, w1)
         | Inr _ \<Rightarrow> (Inr (r_name r), w1))"

section \<open>RunTest\<close>

text \<open>
  The loop of \<open>RunTest\<close>: \<open>open_handle\<close> is a plain \<open>HANDLE\<close>, wrapped only when it is
  appended to \<open>handles\<close>. The loop yields the exception thrown, if any, and the vector.
\<close>

function RunTest_loop ::
    "int \<Rightarrow> int \<Rightarrow> wstring \<Rightarrow> HANDLE list \<Rightarrow> world \<Rightarrow> NtException option \<times> HANDLE list \<times> world" where
  "RunTest_loop i iterations name handles w =
     (if i < iterations then
        (let (r, w1) = native (NtOpenEvent (UnicodeString name)) w
         in case Check (r_status r) of
              Inl ex \<Rightarrow> (Some ex, handles, w1)
            | Inr _ \<Rightarrow> RunTest_loop (i + 1) iterations name (handles @ [r_handle r]) w1)
      else (None, handles, w))"
  by pat_completeness auto
termination
  by (relation "measure (\<lambda>(i, iterations, name, handles, w). nat (iterations - i))") auto

declare RunTest_loop.simps [simp del]

text \<open>
  \<open>RunTest\<close> up to the end of its scope: the result, and the handles its locals still
  own, in the order in which they are destroyed (\<open>handles\<close>, then \<open>event_handle\<close>).
\<close>

definition RunTest_body ::
    "wstring \<Rightarrow> int \<Rightarrow> wstring \<Rightarrow> HANDLE \<Rightarrow> world \<Rightarrow> (NtException + double) \<times> HANDLE list \<times> world" where
  "RunTest_body name iterations create_name root_dir w =
     (let create_name = (if create_name = [] then name else create_name) in
      case CreateEvent create_name root_dir w of
        (Inl ex, w1) \<Rightarrow> (Inl ex, [], w1)
      | (Inr event_handle, w1) \<Rightarrow>
          (let (timer, w2) = Timer_start w1 in
           case RunTest_loop 0 iterations name [] w2 of
             (Some ex, handles, w3) \<Rightarrow> (Inl ex, handles @ [event_handle], w3)
           | (None, handles, w3) \<Rightarrow>
               (let (t, w4) = GetTime timer iterations w3
                in (Inr t, handles @ [event_handle], w4))))"

definition RunTest ::
    "wstring \<Rightarrow> int \<Rightarrow> wstring \<Rightarrow> HANDLE \<Rightarrow> world \<Rightarrow> (NtException + double) \<times> world" where
  "RunTest name iterations create_name root_dir w =
     (let (result, owned, w1) = RunTest_body name iterations create_name root_dir w
      in (result, destroy_all owned w1))"

section \<open>Strings the scenarios build\<close>

text \<open>The two characters \<open>\\\<close> of a C literal, one backslash, in front of \<open>s\<close>.\<close>

definition bs :: "string \<Rightarrow> string" where
  "bs s = CHR 0x5C # s"

function dec_nat :: "nat \<Rightarrow> string" where
  "dec_nat n = (if n < 10 then [char_of (48 + n)] else dec_nat (n div 10) @ [char_of (48 + n mod 10)])"
  by pat_completeness auto
termination
  by (relation "measure (\<lambda>n. n)") auto

declare dec_nat.simps [simp del]

text \<open>An \<open>int\<close> in decimal, as \<open>%d\<close> and the stream insertion of \<open>IntToString\<close> write it.\<close>

definition dec :: "int \<Rightarrow> string" where
  "dec i = (if i < 0 then CHR ''-'' # dec_nat (nat (- i)) else dec_nat (nat i))"

definition IntToString :: "int \<Rightarrow> wstring" where
  "IntToString i = wide (dec i)"

definition hex_digit :: "nat \<Rightarrow> char" where
  "hex_digit d = (if d < 10 then char_of (48 + d) else char_of (55 + d))"

text \<open>The conversion \<open>%08X\<close> of a 32-bit value.\<close>

definition hex8 :: "NTSTATUS \<Rightarrow> string" where
  "hex8 s = map (\<lambda>k. hex_digit (unat (drop_bit (4 * k) s AND 15))) [7, 6, 5, 4, 3, 2, 1, 0]"

section \<open>The scenarios\<close>

text \<open>
  A scenario ends normally, or with the \<open>NtException\<close> that left it, or in undefined
  behaviour of C++ (\<open>front()\<close> of an empty vector, signed overflow). Every scenario that
  owns handles is given as its body, which yields the handles its locals own when the
  scope ends, in the order of their destruction, and the scenario, which destroys them.
  A run is not followed beyond undefined behaviour: the locals are not destroyed then.
\<close>

datatype abort = Thrown NtException | Undefined

definition Test1 :: "string list \<Rightarrow> world \<Rightarrow> abort option \<times> world" where
  "Test1 args w =
     (let iterations = GetArg args 0 1000 in
      case RunTest (wide (bs ''BaseNamedObjects'' @ bs ''{2F2C4C1D-FD52-47CA-BF97-CA72B6CA55F8}''))
             iterations [] nullptr w of
        (Inl ex, w1) \<Rightarrow> (Some (Thrown ex), w1)
      | (Inr test1, w1) \<Rightarrow> (None, printf (Us_for_iterations test1 iterations) w1))"

function Test2_loop :: "wstring \<Rightarrow> int \<Rightarrow> world \<Rightarrow> abort option \<times> world" where
  "Test2_loop path iterations w =
     (if length path \<le> 32000 then
        (case RunTest (wide (bs ''BaseNamedObjects'' @ bs ''A'') @ path) iterations [] nullptr w of
           (Inl ex, w1) \<Rightarrow> (Some (Thrown ex), w1)
         | (Inr result, w1) \<Rightarrow>
             Test2_loop (path @ replicate 500 0x41) iterations
               (printf (Size_and_time (length path) result) w1))
      else (None, w))"
  by pat_completeness auto
termination
  by (relation "measure (\<lambda>(path, iterations, w). 32001 - length path)") auto

declare Test2_loop.simps [simp del]

definition Test2 :: "string list \<Rightarrow> world \<Rightarrow> abort option \<times> world" where
  "Test2 args w = (let iterations = GetArg args 0 1000 in Test2_loop [] iterations w)"

function Test3_loop ::
    "int \<Rightarrow> int \<Rightarrow> int \<Rightarrow> HANDLE \<Rightarrow> HANDLE list \<Rightarrow> world \<Rightarrow> abort option \<times> HANDLE list \<times> world" where
  "Test3_loop i dir_count iterations last_dir dirs w =
     (if i < dir_count then
        (case CreateDirectory (wide ''A'') last_dir nullptr w of
           (Inl ex, w1) \<Rightarrow> (Some (Thrown ex), dirs, w1)
         | (Inr h, w1) \<Rightarrow>
             if i mod 500 = 0 then
               (case GetName h w1 of
                  (Inl ex, w2) \<Rightarrow> (Some (Thrown ex), dirs @ [h], w2)
                | (Inr last_dir_name, w2) \<Rightarrow>
                    (case RunTest (last_dir_name @ wide (bs ''X'')) iterations [] nullptr w2 of
                       (Inl ex, w3) \<Rightarrow> (Some (Thrown ex), dirs @ [h], w3)
                     | (Inr result, w3) \<Rightarrow>
                         Test3_loop (i + 1) dir_count iterations h (dirs @ [h])
                           (printf (Int_and_time (i + 1) result) w3)))
             else Test3_loop (i + 1) dir_count iterations h (dirs @ [h]) w1)
      else (None, dirs, w))"
  by pat_completeness auto
termination
  by (relation "measure (\<lambda>(i, dir_count, iterations, last_dir, dirs, w). nat (dir_count - i))") auto

declare Test3_loop.simps [simp del]

definition Test3_body :: "string list \<Rightarrow> world \<Rightarrow> abort option \<times> HANDLE list \<times> world" where
  "Test3_body args w =
     (let iterations = GetArg args 0 1000;
          dir_count = GetArg args 1 16000 in
      case OpenDirectory (wide (bs ''BaseNamedObjects'')) nullptr w of
        (Inl ex, w1) \<Rightarrow> (Some (Thrown ex), [], w1)
      | (Inr base_dir, w1) \<Rightarrow>
          (let (a, dirs, w2) = Test3_loop 0 dir_count iterations base_dir [] w1
           in (a, dirs @ [base_dir], w2)))"

definition Test3 :: "string list \<Rightarrow> world \<Rightarrow> abort option \<times> world" where
  "Test3 args w = (let (a, owned, w1) = Test3_body args w in (a, destroy_all owned w1))"

function Test4_dirs_loop ::
    "int \<Rightarrow> int \<Rightarrow> HANDLE \<Rightarrow> HANDLE list \<Rightarrow> world \<Rightarrow> abort option \<times> HANDLE \<times> HANDLE list \<times> world" where
  "Test4_dirs_loop i dir_count last_dir dirs w =
     (if i < dir_count then
        (case CreateDirectory (wide ''A'') last_dir nullptr w of
           (Inl ex, w1) \<Rightarrow> (Some (Thrown ex), last_dir, dirs, w1)
         | (Inr h, w1) \<Rightarrow> Test4_dirs_loop (i + 1) dir_count h (dirs @ [h]) w1)
      else (None, last_dir, dirs, w))"
  by pat_completeness auto
termination
  by (relation "measure (\<lambda>(i, dir_count, last_dir, dirs, w). nat (dir_count - i))") auto

declare Test4_dirs_loop.simps [simp del]

text \<open>The loop that creates the symbolic links, of \<open>Test4\<close> and of \<open>Test8\<close>.\<close>

function links_loop ::
    "int \<Rightarrow> int \<Rightarrow> HANDLE \<Rightarrow> wstring \<Rightarrow> HANDLE list \<Rightarrow> world \<Rightarrow> abort option \<times> HANDLE list \<times> world" where
  "links_loop i symlink_count dir last_dir_name links w =
     (if i < symlink_count then
        (case CreateLink (IntToString i) dir
                (last_dir_name @ wide (bs []) @ IntToString (i + 1)) w of
           (Inl ex, w1) \<Rightarrow> (Some (Thrown ex), links, w1)
         | (Inr h, w1) \<Rightarrow> links_loop (i + 1) symlink_count dir last_dir_name (links @ [h]) w1)
      else (None, links, w))"
  by pat_completeness auto
termination
  by (relation "measure (\<lambda>(i, symlink_count, dir, last_dir_name, links, w). nat (symlink_count - i))") auto

declare links_loop.simps [simp del]

definition Test4_body :: "string list \<Rightarrow> world \<Rightarrow> abort option \<times> HANDLE list \<times> world" where
  "Test4_body args w =
     (let iterations = GetArg args 0 10;
          dir_count = GetArg args 1 16000;
          symlink_count = GetArg args 2 63 in
      case OpenDirectory (wide (bs ''BaseNamedObjects'')) nullptr w of
        (Inl ex, w1) \<Rightarrow> (Some (Thrown ex), [], w1)
      | (Inr base_dir, w1) \<Rightarrow>
          (case Test4_dirs_loop 0 dir_count base_dir [] w1 of
             (Some a, last_dir, dirs, w2) \<Rightarrow> (Some a, dirs @ [base_dir], w2)
           | (None, last_dir, dirs, w2) \<Rightarrow>
               (case GetName last_dir w2 of
                  (Inl ex, w3) \<Rightarrow> (Some (Thrown ex), dirs @ [base_dir], w3)
                | (Inr last_dir_name, w3) \<Rightarrow>
                    (case links_loop 0 symlink_count last_dir last_dir_name [] w3 of
                       (Some a, links, w4) \<Rightarrow> (Some a, links @ dirs @ [base_dir], w4)
                     | (None, links, w4) \<Rightarrow>
                         (case links of
                            [] \<Rightarrow> (Some Undefined, dirs @ [base_dir], w4)
                          | front # _ \<Rightarrow>
                              (case GetName front w4 of
                                 (Inl ex, w5) \<Rightarrow> (Some (Thrown ex), links @ dirs @ [base_dir], w5)
                               | (Inr name, w5) \<Rightarrow>
                                   (case RunTest name iterations (IntToString symlink_count)
                                           last_dir w5 of
                                      (Inl ex, w6) \<Rightarrow>
                                        (Some (Thrown ex), links @ dirs @ [base_dir], w6)
                                    | (Inr t, w6) \<Rightarrow>
                                        (None, links @ dirs @ [base_dir], printf (Time t) w6))))))))"

definition Test4 :: "string list \<Rightarrow> world \<Rightarrow> abort option \<times> world" where
  "Test4 args w =
     (let (a, owned, w1) = Test4_body args w
      in if a = Some Undefined then (a, w1) else (a, destroy_all owned w1))"

text \<open>
  The timing loop of \<open>Test5\<close>: the handle that \<open>OpenDirectory\<close> returns is a temporary,
  destroyed at the end of the statement.
\<close>

function Test5_timing_loop ::
    "int \<Rightarrow> int \<Rightarrow> wstring \<Rightarrow> HANDLE \<Rightarrow> world \<Rightarrow> NtException option \<times> world" where
  "Test5_timing_loop j iterations base_dir_name base_dir w =
     (if j < iterations then
        (case OpenDirectory base_dir_name base_dir w of
           (Inl ex, w1) \<Rightarrow> (Some ex, w1)
         | (Inr temporary, w1) \<Rightarrow>
             Test5_timing_loop (j + 1) iterations base_dir_name base_dir (destroy temporary w1))
      else (None, w))"
  by pat_completeness auto
termination
  by (relation "measure (\<lambda>(j, iterations, base_dir_name, base_dir, w). nat (iterations - j))") auto

declare Test5_timing_loop.simps [simp del]

function Test5_loop ::
    "int \<Rightarrow> int \<Rightarrow> int \<Rightarrow> wstring \<Rightarrow> HANDLE \<Rightarrow> HANDLE list \<Rightarrow> world
       \<Rightarrow> abort option \<times> HANDLE list \<times> world" where
  "Test5_loop i collision_count iterations base_dir_name base_dir dirs w =
     (if i < collision_count then
        (case CreateDirectory (MakeCollisionName (collision_count - i)) base_dir nullptr w of
           (Inl ex, w1) \<Rightarrow> (Some (Thrown ex), dirs, w1)
         | (Inr h, w1) \<Rightarrow>
             if i mod 500 = 0 then
               (let (timer, w2) = Timer_start w1 in
                case Test5_timing_loop 0 iterations base_dir_name base_dir w2 of
                  (Some ex, w3) \<Rightarrow> (Some (Thrown ex), dirs @ [h], w3)
                | (None, w3) \<Rightarrow>
                    (let (t, w4) = GetTime timer iterations w3
                     in Test5_loop (i + 1) collision_count iterations base_dir_name base_dir
                          (dirs @ [h]) (printf (Int_and_time i t) w4)))
             else Test5_loop (i + 1) collision_count iterations base_dir_name base_dir
                    (dirs @ [h]) w1)
      else (None, dirs, w))"
  by pat_completeness auto
termination
  by (relation "measure (\<lambda>(i, collision_count, iterations, base_dir_name, base_dir, dirs, w).
        nat (collision_count - i))") auto

declare Test5_loop.simps [simp del]

definition Test5_body :: "string list \<Rightarrow> world \<Rightarrow> abort option \<times> HANDLE list \<times> world" where
  "Test5_body args w =
     (let iterations = GetArg args 0 1000;
          collision_count = GetArg args 1 32000 in
      case CreateDirectory (wide (bs ''BaseNamedObjects'' @ bs ''A'')) nullptr nullptr w of
        (Inl ex, w1) \<Rightarrow> (Some (Thrown ex), [], w1)
      | (Inr base_dir, w1) \<Rightarrow>
          (let base_dir_name = MakeCollisionName collision_count;
               (a, dirs, w2) = Test5_loop 0 collision_count iterations base_dir_name base_dir [] w1
           in (a, dirs @ [base_dir], w2)))"

definition Test5 :: "string list \<Rightarrow> world \<Rightarrow> abort option \<times> world" where
  "Test5 args w = (let (a, owned, w1) = Test5_body args w in (a, destroy_all owned w1))"

text \<open>The second loop of \<open>Test6\<close>, over the vector \<open>names\<close>.\<close>

fun Test6_insert_loop ::
    "wstring list \<Rightarrow> HANDLE \<Rightarrow> HANDLE list \<Rightarrow> world \<Rightarrow> abort option \<times> HANDLE list \<times> world" where
  "Test6_insert_loop [] base_dir dirs w = (None, dirs, w)"
| "Test6_insert_loop (name # names) base_dir dirs w =
     (case CreateDirectory name base_dir nullptr w of
        (Inl ex, w1) \<Rightarrow> (Some (Thrown ex), dirs, w1)
      | (Inr h, w1) \<Rightarrow> Test6_insert_loop names base_dir (dirs @ [h]) w1)"

definition Test6_body :: "string list \<Rightarrow> world \<Rightarrow> abort option \<times> HANDLE list \<times> world" where
  "Test6_body args w =
     (let collision_count = GetArg args 0 32000;
          names = Test6_names collision_count in
      case CreateDirectory (wide (bs ''BaseNamedObjects'' @ bs ''A'')) nullptr nullptr w of
        (Inl ex, w1) \<Rightarrow> (Some (Thrown ex), [], w1)
      | (Inr base_dir, w1) \<Rightarrow>
          (let (timer, w2) = Timer_start w1 in
           case Test6_insert_loop names base_dir [] w2 of
             (Some a, dirs, w3) \<Rightarrow> (Some a, dirs @ [base_dir], w3)
           | (None, dirs, w3) \<Rightarrow>
               (let (t, w4) = GetTime timer 1 w3
                in (None, dirs @ [base_dir], printf (Time t) w4))))"

definition Test6 :: "string list \<Rightarrow> world \<Rightarrow> abort option \<times> world" where
  "Test6 args w = (let (a, owned, w1) = Test6_body args w in (a, destroy_all owned w1))"

text \<open>The loops of \<open>Test7\<close> and \<open>Test8\<close> that append \<open>\\A\<close> to a name.\<close>

function append_A_loop :: "int \<Rightarrow> int \<Rightarrow> wstring \<Rightarrow> wstring" where
  "append_A_loop j n name =
     (if j < n then append_A_loop (j + 1) n (name @ wide (bs ''A'')) else name)"
  by pat_completeness auto
termination
  by (relation "measure (\<lambda>(j, n, name). nat (n - j))") auto

declare append_A_loop.simps [simp del]

function Test7_loop ::
    "int \<Rightarrow> int \<Rightarrow> int \<Rightarrow> wstring \<Rightarrow> HANDLE \<Rightarrow> world \<Rightarrow> abort option \<times> world" where
  "Test7_loop i dir_count iterations dir_name shadow_dir w =
     (if i < dir_count then
        (let open_name = append_A_loop 0 i dir_name @ wide (bs ''X'') in
         case RunTest open_name iterations (wide ''X'') shadow_dir w of
           (Inl ex, w1) \<Rightarrow> (Some (Thrown ex), w1)
         | (Inr t, w1) \<Rightarrow>
             if INT_MAX < i + 500 then (Some Undefined, printf (Int_and_time i t) w1)
             else Test7_loop (i + 500) dir_count iterations dir_name shadow_dir
                    (printf (Int_and_time i t) w1))
      else (None, w))"
  by pat_completeness auto
termination
  by (relation "measure (\<lambda>(i, dir_count, iterations, dir_name, shadow_dir, w). nat (dir_count - i))")
    auto

declare Test7_loop.simps [simp del]

definition Test7_body :: "string list \<Rightarrow> world \<Rightarrow> abort option \<times> HANDLE list \<times> world" where
  "Test7_body args w =
     (let iterations = GetArg args 0 1000;
          dir_count = GetArg args 1 16000;
          dir_name = wide (bs ''BaseNamedObjects'' @ bs ''A'') in
      case CreateDirectory dir_name nullptr nullptr w of
        (Inl ex, w1) \<Rightarrow> (Some (Thrown ex), [], w1)
      | (Inr shadow_dir, w1) \<Rightarrow>
          (case CreateDirectory (wide ''A'') shadow_dir shadow_dir w1 of
             (Inl ex, w2) \<Rightarrow> (Some (Thrown ex), [shadow_dir], w2)
           | (Inr target_dir, w2) \<Rightarrow>
               (let (a, w3) = Test7_loop 0 dir_count iterations dir_name shadow_dir w2
                in (a, [target_dir, shadow_dir], w3))))"

definition Test7 :: "string list \<Rightarrow> world \<Rightarrow> abort option \<times> world" where
  "Test7 args w =
     (let (a, owned, w1) = Test7_body args w
      in if a = Some Undefined then (a, w1) else (a, destroy_all owned w1))"

function Test8_dirs_loop ::
    "int \<Rightarrow> int \<Rightarrow> HANDLE \<Rightarrow> HANDLE list \<Rightarrow> world \<Rightarrow> abort option \<times> HANDLE list \<times> world" where
  "Test8_dirs_loop i collision_count shadow_dir dirs w =
     (if collision_count = INT_MIN then (Some Undefined, dirs, w)
      else if i < collision_count - 1 then
        (case CreateDirectory (MakeCollisionName (collision_count - i)) shadow_dir nullptr w of
           (Inl ex, w1) \<Rightarrow> (Some (Thrown ex), dirs, w1)
         | (Inr h, w1) \<Rightarrow> Test8_dirs_loop (i + 1) collision_count shadow_dir (dirs @ [h]) w1)
      else (None, dirs, w))"
  by pat_completeness auto
termination
  by (relation "measure (\<lambda>(i, collision_count, shadow_dir, dirs, w). nat (collision_count - i))")
    auto

declare Test8_dirs_loop.simps [simp del]

definition Test8_body :: "string list \<Rightarrow> world \<Rightarrow> abort option \<times> HANDLE list \<times> world" where
  "Test8_body args w =
     (let iterations = GetArg args 0 1000;
          dir_count = GetArg args 1 16000;
          symlink_count = GetArg args 2 1;
          collision_count = GetArg args 3 16000;
          dir_name = wide (bs ''BaseNamedObjects'' @ bs ''A'') in
      case CreateDirectory dir_name nullptr nullptr w of
        (Inl ex, w1) \<Rightarrow> (Some (Thrown ex), [], w1)
      | (Inr shadow_dir, w1) \<Rightarrow>
          (case CreateDirectory (wide ''A'') shadow_dir shadow_dir w1 of
             (Inl ex, w2) \<Rightarrow> (Some (Thrown ex), [shadow_dir], w2)
           | (Inr target_dir, w2) \<Rightarrow>
               (case Test8_dirs_loop 0 collision_count shadow_dir [] w2 of
                  (Some a, dirs, w3) \<Rightarrow> (Some a, dirs @ [target_dir, shadow_dir], w3)
                | (None, dirs, w3) \<Rightarrow>
                    (let last_dir_name = append_A_loop 0 dir_count dir_name;
                         w4 = printf (Text ''Created directories\<newline>'') w3 in
                     case links_loop 0 symlink_count shadow_dir last_dir_name [] w4 of
                       (Some a, links, w5) \<Rightarrow>
                         (Some a, links @ dirs @ [target_dir, shadow_dir], w5)
                     | (None, links, w5) \<Rightarrow>
                         (case RunTest (last_dir_name @ wide (bs ''0'')) 1
                                 (IntToString symlink_count) shadow_dir w5 of
                            (Inl ex, w6) \<Rightarrow>
                              (Some (Thrown ex), links @ dirs @ [target_dir, shadow_dir], w6)
                          | (Inr t, w6) \<Rightarrow>
                              (None, links @ dirs @ [target_dir, shadow_dir],
                               printf (Time t) w6))))))"

definition Test8 :: "string list \<Rightarrow> world \<Rightarrow> abort option \<times> world" where
  "Test8 args w =
     (let (a, owned, w1) = Test8_body args w
      in if a = Some Undefined then (a, w1) else (a, destroy_all owned w1))"

section \<open>The entry point\<close>

definition PrintHelp :: "world \<Rightarrow> world" where
  "PrintHelp w =
     fold (\<lambda>line. printf (Text line))
       [''Specify test:\<newline>'',
        ''1 = Simple open.\<newline>'',
        ''2 = Incrementing length name string.\<newline>'',
        ''3 = Recursive directories.\<newline>'',
        ''4 = Recursive symlinks.\<newline>'',
        ''5 = Name collisions.\<newline>'',
        ''6 = Collision insertion time.\<newline>'',
        ''7 = Shadow directories.\<newline>'',
        ''8 = Full test.\<newline>''] w"

text \<open>The \<open>switch\<close> of \<open>main\<close>; \<open>None\<close> is its \<open>default\<close> label.\<close>

definition switch_test ::
    "int \<Rightarrow> (string list \<Rightarrow> world \<Rightarrow> abort option \<times> world) option" where
  "switch_test test_no =
     (if test_no = 1 then Some Test1
      else if test_no = 2 then Some Test2
      else if test_no = 3 then Some Test3
      else if test_no = 4 then Some Test4
      else if test_no = 5 then Some Test5
      else if test_no = 6 then Some Test6
      else if test_no = 7 then Some Test7
      else if test_no = 8 then Some Test8
      else None)"

text \<open>
  \<open>main\<close> yields the exit status of the process, or \<open>None\<close> when the scenario ran into
  undefined behaviour.
\<close>

definition main :: "string list \<Rightarrow> world \<Rightarrow> int option \<times> world" where
  "main argv w =
     (if length argv < 2 then (Some 1, PrintHelp w)
      else
        (let test_no = atoi (argv ! 1);
             args = drop 2 argv in
         case switch_test test_no of
           None \<Rightarrow>
             (Some 1, PrintHelp (printf (Text (''Unknown test: '' @ dec test_no @ ''.\<newline>'')) w))
         | Some test \<Rightarrow>
             (case test args w of
                (None, w1) \<Rightarrow> (Some 0, w1)
              | (Some (Thrown ex), w1) \<Rightarrow>
                  (Some 0,
                   printf (Text (''Error in program: '' @ hex8 (m_status ex) @ ''\<newline>'')) w1)
              | (Some Undefined, w1) \<Rightarrow> (None, w1))))"

section \<open>Observations on traces\<close>

text \<open>What a trace wrote to standard output.\<close>

fun prints :: "event list \<Rightarrow> printed list" where
  "prints [] = []"
| "prints (Printf p # es) = p # prints es"
| "prints (e # es) = prints es"

definition stdout_of :: "world \<Rightarrow> printed list" where
  "stdout_of w = prints (trace w)"

text \<open>An environment in which no native call reports an error.\<close>

definition cooperative :: "world \<Rightarrow> bool" where
  "cooperative w = (\<forall>n. \<not> NT_ERROR (r_status (os w n)))"

text \<open>The loop indices from \<open>i\<close> below \<open>dir_count\<close> at which \<open>Test3\<close> takes a sample.\<close>

definition sampled :: "int \<Rightarrow> int \<Rightarrow> int list" where
  "sampled i dir_count = filter (\<lambda>k. k mod 500 = 0) [i..dir_count - 1]"

text \<open>The kinds of native call: the one that opens a directory; those of \<open>RunTest\<close>; those
  that are given a \<open>ScopedHandle\<close> to fill (\<open>NtOpenEvent\<close> fills a plain \<open>HANDLE\<close>); those
  that build the topology of a scenario.\<close>

fun is_open_directory :: "syscall \<Rightarrow> bool" where
  "is_open_directory (NtOpenDirectoryObject name root_dir) = True"
| "is_open_directory c = False"

fun is_event :: "syscall \<Rightarrow> bool" where
  "is_event (NtCreateEvent name root_dir) = True"
| "is_event (NtOpenEvent name) = True"
| "is_event c = False"

fun fills :: "syscall \<Rightarrow> bool" where
  "fills (NtOpenEvent name) = False"
| "fills (NtQueryObject handle) = False"
| "fills c = True"

fun is_build :: "syscall \<Rightarrow> bool" where
  "is_build (NtCreateDirectoryObjectEx name root_dir shadow_dir) = True"
| "is_build (NtOpenDirectoryObject name root_dir) = True"
| "is_build (NtCreateSymbolicLinkObject name root_dir target) = True"
| "is_build c = False"

text \<open>The handles a trace releases, and the handles it acquires by successful calls of a
  kind \<open>K\<close>, both in order.\<close>

fun releases :: "event list \<Rightarrow> HANDLE list" where
  "releases [] = []"
| "releases (CloseHandle h # es) = h # releases es"
| "releases (e # es) = releases es"

fun acquired :: "(syscall \<Rightarrow> bool) \<Rightarrow> event list \<Rightarrow> HANDLE list" where
  "acquired K [] = []"
| "acquired K (Call c r # es) =
     (if K c \<and> \<not> NT_ERROR (r_status r) then r_handle r # acquired K es else acquired K es)"
| "acquired K (e # es) = acquired K es"

text \<open>What the destructors of the handles \<open>owned\<close> add to the trace.\<close>

definition closing :: "HANDLE list \<Rightarrow> event list" where
  "closing owned = map CloseHandle (filter (\<lambda>h. h \<noteq> nullptr) owned)"

text \<open>
  A scenario may use the handles of some kind \<open>T\<close> of build call as temporaries; the other
  build calls are those whose handles it is to keep. The calls that acquire a handle for a
  measurement are the event calls of \<open>RunTest\<close> and the temporaries.
\<close>

definition temporaries :: "(syscall \<Rightarrow> bool) \<Rightarrow> syscall \<Rightarrow> bool" where
  "temporaries T c = (T c \<and> is_build c)"

definition kept :: "(syscall \<Rightarrow> bool) \<Rightarrow> syscall \<Rightarrow> bool" where
  "kept T c = (is_build c \<and> \<not> T c)"

definition measuring :: "(syscall \<Rightarrow> bool) \<Rightarrow> syscall \<Rightarrow> bool" where
  "measuring T c = (is_event c \<or> temporaries T c)"

text \<open>A trace in which every call that was given a \<open>ScopedHandle\<close> to fill succeeded.\<close>

fun filled :: "event list \<Rightarrow> bool" where
  "filled [] = True"
| "filled (Call c r # es) = ((fills c \<longrightarrow> \<not> NT_ERROR (r_status r)) \<and> filled es)"
| "filled (e # es) = filled es"

text \<open>
  The shape of a trace in which only measurement handles are released, and each of them
  where the program is to release it. The trace is a sequence of pieces, each of which is:
  \<^item> \<open>held\<close>: events in which nothing is released and no measurement handle is acquired;
  \<^item> \<open>temporary\<close>: a successful call of kind \<open>T\<close>, followed at once by the release of
    its handle;
  \<^item> \<open>measured\<close>: a run of \<open>RunTest\<close>, which creates its event, reads the clock, opens
    handles, reads the clock again and then releases the opened handles, first opened
    first, and the event last;
  \<^item> \<open>interrupted\<close>: a run of \<open>RunTest\<close> in which a call of \<open>NtOpenEvent\<close> fails, after
    which the handles opened so far and the event are released in the same order;
  \<^item> \<open>failed\<close>: a call that failed to fill the \<open>ScopedHandle\<close> it was given, followed by
    what the destructor of that handle releases; the field was never set, and the value
    released, if any, is not described.
\<close>

inductive scoped :: "(syscall \<Rightarrow> bool) \<Rightarrow> event list \<Rightarrow> bool" for T where
  held: "releases es = [] \<Longrightarrow> acquired (measuring T) es = [] \<Longrightarrow> scoped T es"
| temporary:
    "temporaries T c \<Longrightarrow> \<not> NT_ERROR (r_status r) \<Longrightarrow> scoped T (Call c r # closing [r_handle r])"
| measured:
    "\<not> NT_ERROR (r_status r) \<Longrightarrow> list_all (\<lambda>r'. \<not> NT_ERROR (r_status r')) rs \<Longrightarrow>
     scoped T (Call (NtCreateEvent created root_dir) r # Now start #
               map (Call (NtOpenEvent opened)) rs @ Now stop #
               closing (map r_handle rs @ [r_handle r]))"
| interrupted:
    "\<not> NT_ERROR (r_status r) \<Longrightarrow> list_all (\<lambda>r'. \<not> NT_ERROR (r_status r')) rs \<Longrightarrow>
     NT_ERROR (r_status r'') \<Longrightarrow>
     scoped T (Call (NtCreateEvent created root_dir) r # Now start #
               map (Call (NtOpenEvent opened)) rs @ Call (NtOpenEvent opened) r'' #
               closing (map r_handle rs @ [r_handle r]))"
| failed: "NT_ERROR (r_status r) \<Longrightarrow> fills c \<Longrightarrow> scoped T (Call c r # closing [unset])"
| seq: "scoped T xs \<Longrightarrow> scoped T ys \<Longrightarrow> scoped T (xs @ ys)"

text \<open>
  \<open>retained T w (owned, w')\<close>: from \<open>w\<close> to \<open>w'\<close> the trace grows by a scoped trace, and the
  handles that the kept calls acquire in it are the handles \<open>owned\<close> at the end, each as
  often as it was acquired. \<open>run T w w' hs\<close> names these handles in the order of their
  acquisition. \<open>scope_exit\<close> is the trace after the destruction of the handles owned.
\<close>

definition run :: "(syscall \<Rightarrow> bool) \<Rightarrow> world \<Rightarrow> world \<Rightarrow> HANDLE list \<Rightarrow> bool" where
  "run T w w' hs = (\<exists>es. trace w' = trace w @ es \<and> scoped T es \<and> acquired (kept T) es = hs)"

definition retained :: "(syscall \<Rightarrow> bool) \<Rightarrow> world \<Rightarrow> HANDLE list \<times> world \<Rightarrow> bool" where
  "retained T w body =
     (\<exists>es. trace (snd body) = trace w @ es \<and> scoped T es \<and>
           (\<forall>h. count_list (fst body) h = count_list (acquired (kept T) es) h))"

definition scope_exit :: "HANDLE list \<times> world \<Rightarrow> event list" where
  "scope_exit body = trace (snd body) @ closing (fst body)"

section \<open>Sample environments\<close>

text \<open>
  An environment for concrete runs: the \<open>n\<close>-th native call gets the status \<open>st n\<close>, the
  handle \<open>4 * (n + 1)\<close> and the name \<open>\BaseNamedObjects\A\<close>; the \<open>n\<close>-th clock reading is
  \<open>1500 * n\<close> nanoseconds.
\<close>

definition sample_world :: "(nat \<Rightarrow> NTSTATUS) \<Rightarrow> world" where
  "sample_world st =
     \<lparr>os = (\<lambda>n. \<lparr>r_status = st n, r_handle = 4 * (of_nat n + 1),
                  r_name = wide (bs ''BaseNamedObjects'' @ bs ''A'')\<rparr>),
      clock = (\<lambda>n. 1500 * int n), calls = 0, reads = 0, trace = []\<rparr>"

text \<open>\<open>STATUS_SUCCESS\<close> and \<open>STATUS_OBJECT_NAME_COLLISION\<close>.\<close>

definition STATUS_SUCCESS :: NTSTATUS where
  "STATUS_SUCCESS = 0"

definition STATUS_OBJECT_NAME_COLLISION :: NTSTATUS where
  "STATUS_OBJECT_NAME_COLLISION = 0xC0000035"

text \<open>
  An environment in which the first native call succeeds with the handle \<open>4\<close> and every
  later call fails with \<open>STATUS_OBJECT_NAME_COLLISION\<close>, while the unset field of the handle
  that a failing call was given to fill happens to hold \<open>4\<close>.
\<close>

definition failing_world :: world where
  "failing_world =
     \<lparr>os = (\<lambda>n. \<lparr>r_status = (if n = 0 then STATUS_SUCCESS else STATUS_OBJECT_NAME_COLLISION),
                  r_handle = 4, r_name = []\<rparr>),
      clock = (\<lambda>n. 1500 * int n), calls = 0, reads = 0, trace = []\<rparr>"

section \<open>Properties of the collision-name generator\<close>

lemma MakeNullString_loop_eq:
  "MakeNullString_loop i count ret = ret @ replicate (nat (count - i)) 0"
proof (induction i count ret rule: MakeNullString_loop.induct)
  case (1 i count ret)
  show ?case
  proof (cases "i < count")
    case True
    then have "nat (count - i) = Suc (nat (count - (i + 1)))" by simp
    with True 1 show ?thesis
      by (subst MakeNullString_loop.simps) (simp add: replicate_app_Cons_same)
  next
    case False
    then show ?thesis by (subst MakeNullString_loop.simps) simp
  qed
qed

lemma MakeCollisionName_eq:
  "MakeCollisionName count = replicate (nat count) 0 @ [0x41]"
  by (simp add: MakeCollisionName_def MakeNullString_def MakeNullString_loop_eq wide_def)

lemma zero_run_collision: "zero_run (MakeCollisionName count) = nat count"
  by (simp add: MakeCollisionName_eq zero_run_def takeWhile_append)

lemma Test6_names_loop_eq:
  "Test6_names_loop i n names =
     names @ map (\<lambda>k. MakeCollisionName (n - int k)) [nat i ..< nat n]" if "0 \<le> i"
  using that
proof (induction i n names rule: Test6_names_loop.induct)
  case (1 i n names)
  show ?case
  proof (cases "i < n")
    case True
    then have "[nat i ..< nat n] = nat i # [nat (i + 1) ..< nat n]"
      using 1(2) by (simp add: upt_conv_Cons nat_add_distrib)
    with True 1 show ?thesis
      by (subst Test6_names_loop.simps) simp
  next
    case False
    then show ?thesis using 1(2) by (subst Test6_names_loop.simps) simp
  qed
qed

lemma Test6_names_eq:
  "Test6_names n = map (\<lambda>k. MakeCollisionName (n - int k)) [0 ..< nat n]"
  by (simp add: Test6_names_def Test6_names_loop_eq)

lemma Test6_names_nth:
  "k < nat n \<Longrightarrow> Test6_names n ! k = replicate (nat n - k) 0 @ wide ''A''"
  by (simp add: Test6_names_eq MakeCollisionName_eq wide_def nat_diff_distrib)

lemma zero_run_Test6_names:
  "map zero_run (Test6_names n) = map (\<lambda>k. nat n - k) [0 ..< nat n]"
  by (simp add: Test6_names_eq zero_run_collision comp_def nat_diff_distrib)

lemma countdown_rev: "map (\<lambda>k. m - k) [0 ..< m] = rev [1 ..< Suc m]"
proof (rule nth_equalityI)
  show "length (map (\<lambda>k. m - k) [0 ..< m]) = length (rev [1 ..< Suc m])" by simp
next
  fix i assume "i < length (map (\<lambda>k. m - k) [0 ..< m])"
  then have i: "i < m" by simp
  then show "map (\<lambda>k. m - k) [0 ..< m] ! i = rev [1 ..< Suc m] ! i"
    by (simp add: rev_nth del: upt_Suc)
qed

lemma sorted_wrt_countdown: "sorted_wrt (>) (rev [1 ..< Suc (m::nat)])"
proof -
  have "sorted_wrt (<) [1 ..< Suc m]" by (rule sorted_wrt_upt)
  then show ?thesis by (simp only: sorted_wrt_rev)
qed

text \<open>
  Claim C1. For a requested \<open>count\<close>, the names pushed by the loop of \<open>Test6\<close>
  (\<open>MakeCollisionName (count - i)\<close> for \<open>i = 0, ..., count - 1\<close>) are \<open>count\<close> names; the
  \<open>k\<close>-th one is \<open>count - k\<close> zero characters followed by the single character \<open>A\<close>; their
  zero-run lengths are \<open>count, count - 1, ..., 1\<close>, strictly decreasing; and the names are
  pairwise distinct as character sequences. For \<open>count \<le> 0\<close> the loop pushes no name.
\<close>

theorem collision_names_decreasing_distinct:
  "length (Test6_names count) = nat count \<and>
   (\<forall>k < nat count. Test6_names count ! k = replicate (nat count - k) 0 @ wide ''A'') \<and>
   map zero_run (Test6_names count) = rev [1 ..< Suc (nat count)] \<and>
   sorted_wrt (>) (map zero_run (Test6_names count)) \<and>
   distinct (Test6_names count)"
proof -
  have len: "length (Test6_names count) = nat count"
    by (simp add: Test6_names_eq)
  have runs: "map zero_run (Test6_names count) = rev [1 ..< Suc (nat count)]"
    by (simp only: zero_run_Test6_names countdown_rev)
  have dec: "sorted_wrt (>) (map zero_run (Test6_names count))"
    by (simp only: runs sorted_wrt_countdown)
  have "distinct (map zero_run (Test6_names count))"
    by (simp only: runs distinct_rev distinct_upt)
  then have "distinct (Test6_names count)"
    by (simp add: distinct_map)
  with len runs dec show ?thesis
    by (simp add: Test6_names_nth)
qed

theorem collision_names_decreasing_distinct_witness:
  "length (Test6_names 3) = 3 \<and>
   Test6_names 3 = [[0, 0, 0, 0x41], [0, 0, 0x41], [0, 0x41]] \<and>
   map zero_run (Test6_names 3) = [3, 2, 1] \<and>
   distinct (Test6_names 3)"
  using collision_names_decreasing_distinct [of 3]
  by (simp add: Test6_names_eq MakeCollisionName_eq zero_run_def upt_conv_Cons eval_nat_numeral)


section \<open>Properties of the status check\<close>

lemma NT_ERROR_iff: "NT_ERROR status = (0xC0000000 \<le> status)"
proof -
  have bound: "unat status < 2 ^ 32" using unsigned_less [of status] by simp
  have shifted: "unat (drop_bit 30 status) = unat status div 2 ^ 30"
    unfolding unat_drop_bit_eq by (simp only: drop_bit_eq_div)
  have "(drop_bit 30 status = 3) = (unat (drop_bit 30 status) = unat (3 :: 32 word))"
    by (simp only: word_unat_eq_iff)
  also have "\<dots> = (unat status div 2 ^ 30 = 3)"
    by (simp only: shifted) simp
  also have "\<dots> = (3 * 2 ^ 30 \<le> unat status)"
    using bound by auto
  also have "\<dots> = (unat (0xC0000000 :: 32 word) \<le> unat status)"
    by simp
  finally show ?thesis
    by (simp only: NT_ERROR_def word_le_nat_alt)
qed

lemma RunTest_loop_error:
  assumes "i < iterations" and "NT_ERROR (r_status (os w (calls w)))"
  shows "RunTest_loop i iterations name handles w =
           (Some (NtException (r_status (os w (calls w)))), handles,
            snd (native (NtOpenEvent (UnicodeString name)) w))"
  using assms by (subst RunTest_loop.simps) (simp add: native_def Check_def Let_def)

text \<open>
  Claim C3. \<open>Check\<close> throws exactly when the status is an error (\<open>NT_ERROR\<close>: both
  severity bits set, that is, a status of at least \<open>0xC0000000\<close>), and the exception carries
  that status. Each namespace operation makes one native call and does not retry: it ends
  with the exception of the status of that call when the status is an error, and with the
  handle (for \<open>GetName\<close>, the name) otherwise; the loop of \<open>RunTest\<close> ends at the first
  call of \<open>NtOpenEvent\<close> whose status is an error.
\<close>

theorem Check_surfaces_every_error:
  "(Check status = Inl (NtException status)) = NT_ERROR status \<and>
   (Check status = Inr ()) = (\<not> NT_ERROR status) \<and>
   NT_ERROR status = (0xC0000000 \<le> status) \<and>
   (let r = os w (calls w);
        result = (if NT_ERROR (r_status r) then Inl (NtException (r_status r))
                  else Inr (r_handle r))
    in fst (CreateDirectory name root_dir shadow_dir w) = result \<and>
       calls (snd (CreateDirectory name root_dir shadow_dir w)) = Suc (calls w) \<and>
       fst (OpenDirectory name root_dir w) = result \<and>
       calls (snd (OpenDirectory name root_dir w)) = Suc (calls w) \<and>
       fst (CreateLink name root_dir target w) = result \<and>
       calls (snd (CreateLink name root_dir target w)) = Suc (calls w) \<and>
       fst (CreateEvent name root_dir w) = result \<and>
       calls (snd (CreateEvent name root_dir w)) = Suc (calls w) \<and>
       fst (GetName handle w) =
         (if NT_ERROR (r_status r) then Inl (NtException (r_status r)) else Inr (r_name r)) \<and>
       calls (snd (GetName handle w)) = Suc (calls w) \<and>
       (i < iterations \<and> NT_ERROR (r_status r) \<longrightarrow>
          RunTest_loop i iterations name handles w =
            (Some (NtException (r_status r)), handles,
             snd (native (NtOpenEvent (UnicodeString name)) w))))"
proof -
  have ops: "(Check status = Inl (NtException status)) = NT_ERROR status \<and>
   (Check status = Inr ()) = (\<not> NT_ERROR status) \<and>
   NT_ERROR status = (0xC0000000 \<le> status) \<and>
   (let r = os w (calls w);
        result = (if NT_ERROR (r_status r) then Inl (NtException (r_status r))
                  else Inr (r_handle r))
    in fst (CreateDirectory name root_dir shadow_dir w) = result \<and>
       calls (snd (CreateDirectory name root_dir shadow_dir w)) = Suc (calls w) \<and>
       fst (OpenDirectory name root_dir w) = result \<and>
       calls (snd (OpenDirectory name root_dir w)) = Suc (calls w) \<and>
       fst (CreateLink name root_dir target w) = result \<and>
       calls (snd (CreateLink name root_dir target w)) = Suc (calls w) \<and>
       fst (CreateEvent name root_dir w) = result \<and>
       calls (snd (CreateEvent name root_dir w)) = Suc (calls w) \<and>
       fst (GetName handle w) =
         (if NT_ERROR (r_status r) then Inl (NtException (r_status r)) else Inr (r_name r)) \<and>
       calls (snd (GetName handle w)) = Suc (calls w))"
    by (simp add: Check_def NT_ERROR_iff [symmetric] Let_def CreateDirectory_def
        OpenDirectory_def CreateLink_def CreateEvent_def GetName_def native_def destroy_def
        split: prod.splits)
  show ?thesis
    using ops RunTest_loop_error [of i iterations w name handles]
    by (simp only: Let_def) blast
qed

theorem Check_surfaces_every_error_witness:
  "Check STATUS_OBJECT_NAME_COLLISION = Inl (NtException 0xC0000035) \<and>
   Check STATUS_SUCCESS = Inr () \<and>
   fst (CreateDirectory (wide ''A'') nullptr nullptr
          (sample_world (\<lambda>n. STATUS_OBJECT_NAME_COLLISION))) = Inl (NtException 0xC0000035) \<and>
   fst (CreateDirectory (wide ''A'') nullptr nullptr (sample_world (\<lambda>n. STATUS_SUCCESS))) = Inr 4 \<and>
   fst (RunTest_loop 0 1000 (wide ''A'') []
          (sample_world (\<lambda>n. STATUS_OBJECT_NAME_COLLISION))) = Some (NtException 0xC0000035) \<and>
   calls (snd (snd (RunTest_loop 0 1000 (wide ''A'') []
          (sample_world (\<lambda>n. STATUS_OBJECT_NAME_COLLISION))))) = 1"
  using Check_surfaces_every_error [of STATUS_OBJECT_NAME_COLLISION
          "sample_world (\<lambda>n. STATUS_OBJECT_NAME_COLLISION)" "wide ''A''" nullptr nullptr
          "[]" nullptr 0 1000 "[]"]
        Check_surfaces_every_error [of STATUS_SUCCESS
          "sample_world (\<lambda>n. STATUS_SUCCESS)" "wide ''A''" nullptr nullptr
          "[]" nullptr 0 1000 "[]"]
  by (simp add: STATUS_OBJECT_NAME_COLLISION_def STATUS_SUCCESS_def sample_world_def Let_def
      native_def)

section \<open>Properties of the argument parser\<close>

text \<open>
  Claim C9. For an \<open>int\<close> position \<open>index\<close> and a default: when the position is beyond the
  end of the list, or the token there is the string \<open>_\<close>, \<open>GetArg\<close> returns the default;
  otherwise it returns \<open>atoi\<close> of the token. (A negative \<open>index\<close> becomes a huge unsigned
  position, beyond the end of every list.)
\<close>

theorem GetArg_default_or_atoi:
  assumes "- (2 ^ 31) \<le> index" and "index < 2 ^ 31" and "length args < 2 ^ 63"
  shows "GetArg args index def_value =
           (if 0 \<le> index \<and> nat index < length args \<and> args ! nat index \<noteq> ''_''
            then atoi (args ! nat index) else def_value)"
proof (cases "0 \<le> index")
  case True
  then have "index mod 2 ^ 64 = index"
    using assms(2) by (simp add: mod_pos_pos_trivial)
  then show ?thesis using True by (simp add: GetArg_def Let_def)
next
  case False
  have "index mod 2 ^ 64 = (index + 2 ^ 64) mod 2 ^ 64"
    by simp
  also have "\<dots> = index + 2 ^ 64"
    by (rule mod_pos_pos_trivial) (use assms(1) False in simp_all)
  finally have "index mod 2 ^ 64 = index + 2 ^ 64" .
  then have "\<not> nat (index mod 2 ^ 64) < length args"
    using assms(1,3) by simp
  then show ?thesis using False by (simp add: GetArg_def Let_def)
qed

theorem GetArg_default_or_atoi_witness:
  "GetArg [''12'', ''_'', ''7x''] 0 1000 = 12 \<and>
   GetArg [''12'', ''_'', ''7x''] 1 1000 = 1000 \<and>
   GetArg [''12'', ''_'', ''7x''] 2 1000 = 7 \<and>
   GetArg [''12'', ''_'', ''7x''] 3 1000 = 1000 \<and>
   GetArg [''12'', ''_'', ''7x''] (- 1) 1000 = 1000"
  using GetArg_default_or_atoi [of 0 "[''12'', ''_'', ''7x'']" 1000]
        GetArg_default_or_atoi [of 1 "[''12'', ''_'', ''7x'']" 1000]
        GetArg_default_or_atoi [of 2 "[''12'', ''_'', ''7x'']" 1000]
        GetArg_default_or_atoi [of 3 "[''12'', ''_'', ''7x'']" 1000]
        GetArg_default_or_atoi [of "- 1" "[''12'', ''_'', ''7x'']" 1000]
  by (simp add: atoi_def isspace_def isdigit_def INT_MAX_def INT_MIN_def)

section \<open>Properties of the timer\<close>

subsection \<open>Rounding to binary64\<close>

lemma bitlen_powi:
  assumes "0 < a"
  shows "(2::rat) powi (bitlen a - 1) \<le> of_int a" and "of_int a < (2::rat) powi bitlen a"
proof -
  have l: "1 \<le> bitlen a" using assms by (simp add: bitlen_alt_def)
  have "2 ^ nat (bitlen a - 1) \<le> a" and "a < 2 ^ nat (bitlen a)"
    using bitlen_bounds [OF assms] by simp_all
  then have "rat_of_int (2 ^ nat (bitlen a - 1)) \<le> of_int a" and "rat_of_int a < of_int (2 ^ nat (bitlen a))"
    by (simp_all only: of_int_le_iff of_int_less_iff)
  then show "(2::rat) powi (bitlen a - 1) \<le> of_int a" and "of_int a < (2::rat) powi bitlen a"
    using l by (simp_all add: power_int_nonneg_exp)
qed

lemma exponent_bounds:
  assumes "0 < x"
  shows "2 powi exponent x \<le> x" and "x < 2 powi (exponent x + 1)"
proof -
  obtain a b where q: "quotient_of x = (a, b)" by (cases "quotient_of x")
  have b: "0 < b" using quotient_of_denom_pos [OF q] .
  have x: "x = of_int a / of_int b" using quotient_of_div [OF q] .
  have a: "0 < a" using assms b x by (simp add: zero_less_divide_iff)
  define k where "k = bitlen a - bitlen b"
  have e: "exponent x = (if x < 2 powi k then k - 1 else k)"
    by (simp add: exponent_def q k_def Let_def)
  have up: "x < 2 powi (k + 1)"
  proof -
    have "of_int a < (2::rat) powi bitlen a" by (rule bitlen_powi [OF a])
    also have "\<dots> = 2 powi (k + 1) * 2 powi (bitlen b - 1)"
      by (simp add: k_def power_int_add [symmetric])
    also have "\<dots> \<le> 2 powi (k + 1) * of_int b"
      using bitlen_powi(1) [OF b] by (simp add: mult_left_mono)
    finally show ?thesis using b by (simp add: x pos_divide_less_eq)
  qed
  have lo: "2 powi (k - 1) \<le> x"
  proof -
    have "(2::rat) powi (k - 1) * of_int b \<le> 2 powi (k - 1) * 2 powi bitlen b"
      using bitlen_powi(2) [OF b] by (simp add: mult_left_mono)
    also have "\<dots> = 2 powi (bitlen a - 1)"
      by (simp add: k_def power_int_add [symmetric])
    also have "\<dots> \<le> of_int a" by (rule bitlen_powi [OF a])
    finally show ?thesis using b by (simp add: x pos_le_divide_eq)
  qed
  show "2 powi exponent x \<le> x" using lo by (simp add: e)
  show "x < 2 powi (exponent x + 1)" using up by (simp add: e)
qed

lemma powi_less_cancel: "(2::rat) powi m < 2 powi n \<Longrightarrow> m < n"
proof (rule ccontr)
  assume a: "(2::rat) powi m < 2 powi n" and "\<not> m < n"
  then have "n \<le> m" by simp
  then have "(2::rat) powi n \<le> 2 powi m" by (rule power_int_increasing) simp
  with a show False by simp
qed

lemma exponent_unique:
  assumes "2 powi e \<le> x" and "x < 2 powi (e + 1)"
  shows "exponent x = e"
proof -
  have "(0::rat) < 2 powi e" by simp
  then have x: "0 < x" using assms(1) by (rule less_le_trans)
  have "(2::rat) powi e < 2 powi (exponent x + 1)"
    using assms(1) exponent_bounds(2) [OF x] by (rule le_less_trans)
  then have 1: "e < exponent x + 1" by (rule powi_less_cancel)
  have "(2::rat) powi exponent x < 2 powi (e + 1)"
    using exponent_bounds(1) [OF x] assms(2) by (rule le_less_trans)
  then have 2: "exponent x < e + 1" by (rule powi_less_cancel)
  show ?thesis using 1 2 by simp
qed

lemma round_half_even_error: "\<bar>of_int (round_half_even y) - y\<bar> \<le> 1 / 2"
proof -
  have "of_int \<lfloor>y\<rfloor> \<le> y" and "y < of_int \<lfloor>y\<rfloor> + 1" by linarith+
  then show ?thesis
    by (auto simp: round_half_even_def Let_def abs_le_iff)
qed

lemma round_half_even_of_int [simp]: "round_half_even (of_int n) = n"
  by (simp add: round_half_even_def)

lemma round_half_even_ge:
  assumes "of_int n \<le> y"
  shows "n \<le> round_half_even y"
proof -
  have "n \<le> \<lfloor>y\<rfloor>" using assms by (simp add: le_floor_iff)
  then show ?thesis by (simp add: round_half_even_def Let_def)
qed

lemma round_half_even_le:
  assumes "y \<le> of_int n"
  shows "round_half_even y \<le> n"
proof (cases "y = of_int n")
  case True
  then show ?thesis by simp
next
  case False
  then have "y < of_int n" using assms by simp
  then have "\<lfloor>y\<rfloor> < n" by (simp add: floor_less_iff)
  then show ?thesis by (simp add: round_half_even_def Let_def)
qed


lemma binary64_at:
  assumes lo: "2 powi e \<le> \<bar>x\<bar>" and hi: "\<bar>x\<bar> < 2 powi (e + 1)"
    and e: "- 1022 \<le> e" "e \<le> 1022"
  defines "v \<equiv> rat_of_int (round_half_even (\<bar>x\<bar> / 2 powi (e - 52))) * 2 powi (e - 52)"
  shows "binary64 x = Finite (if 0 < x then v else - v)"
    and "2 powi e \<le> v" and "v \<le> 2 powi (e + 1)"
    and "\<bar>v - \<bar>x\<bar>\<bar> \<le> 2 powi (e - 53)"
proof -
  let ?ulp = "(2::rat) powi (e - 52)"
  let ?M = "round_half_even (\<bar>x\<bar> / ?ulp)"
  have ulp: "0 < ?ulp" by simp
  have "(0::rat) < 2 powi e" by simp
  then have "0 < \<bar>x\<bar>" using lo by (rule less_le_trans)
  then have x0: "x \<noteq> 0" by simp
  have ex: "exponent \<bar>x\<bar> = e" using lo hi by (rule exponent_unique)
  have e52: "(2::rat) powi e = 2 ^ 52 * ?ulp"
    by (simp add: power_int_diff)
  have e53: "(2::rat) powi (e + 1) = 2 ^ 53 * ?ulp"
    by (simp add: power_int_diff power_int_add)
  have "rat_of_int (2 ^ 52) \<le> \<bar>x\<bar> / ?ulp"
    using lo ulp by (simp add: e52 pos_le_divide_eq)
  then have M1: "2 ^ 52 \<le> ?M" by (rule round_half_even_ge)
  have "\<bar>x\<bar> / ?ulp \<le> rat_of_int (2 ^ 53)"
    using hi ulp by (simp add: e53 pos_divide_le_eq)
  then have M2: "?M \<le> 2 ^ 53" by (rule round_half_even_le)
  have "rat_of_int (2 ^ 52) \<le> of_int ?M" using M1 by (simp only: of_int_le_iff)
  then have "rat_of_int (2 ^ 52) * ?ulp \<le> of_int ?M * ?ulp"
    using ulp by (simp only: mult_le_cancel_right_pos)
  then show v1: "2 powi e \<le> v" by (simp add: v_def e52)
  have "rat_of_int ?M \<le> of_int (2 ^ 53)" using M2 by (simp only: of_int_le_iff)
  then have "rat_of_int ?M * ?ulp \<le> of_int (2 ^ 53) * ?ulp"
    using ulp by (simp only: mult_le_cancel_right_pos)
  then show v2: "v \<le> 2 powi (e + 1)" by (simp add: v_def e53)
  have "(2::rat) powi (e + 1) \<le> 2 powi 1023"
    using e by (intro power_int_increasing) simp_all
  also have "\<dots> < 2 powi 1024" by (intro power_int_strict_increasing) simp_all
  finally have v3: "v < 2 powi 1024" using v2 by simp
  have "(0::rat) < 2 powi e" by simp
  then have v0: "0 < v" using v1 by (rule less_le_trans)
  have mx: "max (exponent \<bar>x\<bar>) (- 1022) = e" using e by (simp add: ex)
  have "binary64 x =
          (if 2 powi 1024 \<le> v then (if 0 < x then PosInf else NegInf)
           else if v = 0 then (if 0 < x then Finite 0 else NegZero)
           else Finite (if 0 < x then v else - v))"
    by (simp only: binary64_def Let_def mx v_def if_not_P [OF x0])
  also have "\<dots> = Finite (if 0 < x then v else - v)"
    using v3 v0 by (simp only: if_not_P not_le [THEN iffD2] less_imp_neq [THEN not_sym] if_False)
  finally show "binary64 x = Finite (if 0 < x then v else - v)" .
  have "\<bar>rat_of_int ?M - \<bar>x\<bar> / ?ulp\<bar> \<le> 1 / 2" by (rule round_half_even_error)
  then have "\<bar>rat_of_int ?M - \<bar>x\<bar> / ?ulp\<bar> * ?ulp \<le> 1 / 2 * ?ulp"
    using ulp by (simp only: mult_le_cancel_right_pos)
  moreover have "\<bar>rat_of_int ?M - \<bar>x\<bar> / ?ulp\<bar> * ?ulp = \<bar>v - \<bar>x\<bar>\<bar>"
  proof -
    have "\<bar>rat_of_int ?M - \<bar>x\<bar> / ?ulp\<bar> * ?ulp = \<bar>(rat_of_int ?M - \<bar>x\<bar> / ?ulp) * ?ulp\<bar>"
      using ulp by (simp add: abs_mult)
    also have "(rat_of_int ?M - \<bar>x\<bar> / ?ulp) * ?ulp = v - \<bar>x\<bar>"
      using ulp by (simp add: v_def left_diff_distrib)
    finally show ?thesis .
  qed
  moreover have "1 / 2 * ?ulp = 2 powi (e - 53)"
    by (simp add: power_int_diff)
  ultimately show "\<bar>v - \<bar>x\<bar>\<bar> \<le> 2 powi (e - 53)" by simp
qed

lemma exponent_range:
  assumes "2 powi (- 1022) \<le> \<bar>x\<bar>" and "\<bar>x\<bar> < 2 powi 1023"
  shows "2 powi exponent \<bar>x\<bar> \<le> \<bar>x\<bar>" and "\<bar>x\<bar> < 2 powi (exponent \<bar>x\<bar> + 1)"
    and "- 1022 \<le> exponent \<bar>x\<bar>" and "exponent \<bar>x\<bar> \<le> 1022"
proof -
  have "(0::rat) < 2 powi (- 1022)" by simp
  then have x: "0 < \<bar>x\<bar>" using assms(1) by (rule less_le_trans)
  show 1: "2 powi exponent \<bar>x\<bar> \<le> \<bar>x\<bar>" and 2: "\<bar>x\<bar> < 2 powi (exponent \<bar>x\<bar> + 1)"
    using exponent_bounds [OF x] by simp_all
  have "(2::rat) powi (- 1022) < 2 powi (exponent \<bar>x\<bar> + 1)"
    using assms(1) 2 by (rule le_less_trans)
  then have "- 1022 < exponent \<bar>x\<bar> + 1" by (rule powi_less_cancel)
  then show "- 1022 \<le> exponent \<bar>x\<bar>" by simp
  have "(2::rat) powi exponent \<bar>x\<bar> < 2 powi 1023"
    using 1 assms(2) by (rule le_less_trans)
  then have "exponent \<bar>x\<bar> < 1023" by (rule powi_less_cancel)
  then show "exponent \<bar>x\<bar> \<le> 1022" by simp
qed

text \<open>In the normal range the result is the argument with a relative error of at most 2^-53.\<close>

lemma binary64_error:
  assumes "2 powi (- 1022) \<le> \<bar>x\<bar>" and "\<bar>x\<bar> < 2 powi 1023"
  shows "\<exists>q. binary64 x = Finite q \<and> (0 < x \<longrightarrow> 0 < q) \<and> (x < 0 \<longrightarrow> q < 0) \<and>
             \<bar>q - x\<bar> \<le> \<bar>x\<bar> / 2 ^ 53"
proof -
  define e where "e = exponent \<bar>x\<bar>"
  define v where "v = rat_of_int (round_half_even (\<bar>x\<bar> / 2 powi (e - 52))) * 2 powi (e - 52)"
  note r = exponent_range [OF assms, folded e_def]
  note b = binary64_at [OF r, folded v_def]
  have "(0::rat) < 2 powi e" by simp
  then have v0: "0 < v" using b(2) by (rule less_le_trans)
  have "(2::rat) powi (e - 53) = 2 powi e / 2 ^ 53" by (simp add: power_int_diff)
  also have "\<dots> \<le> \<bar>x\<bar> / 2 ^ 53" using r(1) by (simp add: divide_right_mono)
  finally have err: "\<bar>v - \<bar>x\<bar>\<bar> \<le> \<bar>x\<bar> / 2 ^ 53" using b(4) by simp
  have "0 < \<bar>x\<bar>" using \<open>0 < 2 powi e\<close> r(1) by (rule less_le_trans)
  then have x0: "x \<noteq> 0" by simp
  show ?thesis
  proof (cases "0 < x")
    case True
    then show ?thesis using b(1) v0 err by simp
  next
    case False
    then have neg: "x < 0" using x0 by simp
    have "\<bar>- v - x\<bar> = \<bar>v - \<bar>x\<bar>\<bar>" using neg by simp
    then show ?thesis using b(1) v0 err neg by simp
  qed
qed

text \<open>A number with a significand of 53 bits is its own rounding.\<close>

lemma binary64_exact:
  assumes "2 powi e \<le> \<bar>x\<bar>" and "\<bar>x\<bar> < 2 powi (e + 1)" and "- 1022 \<le> e" and "e \<le> 1022"
    and "\<bar>x\<bar> = rat_of_int k * 2 powi (e - 52)"
  shows "binary64 x = Finite x"
proof -
  have "\<bar>x\<bar> / 2 powi (e - 52) = rat_of_int k" using assms(5) by simp
  then have "rat_of_int (round_half_even (\<bar>x\<bar> / 2 powi (e - 52))) * 2 powi (e - 52) = \<bar>x\<bar>"
    using assms(5) by simp
  then show ?thesis
    using binary64_at(1) [OF assms(1-4)] by (cases "0 < x") simp_all
qed


lemma binary64_idem:
  assumes lo: "2 powi e \<le> \<bar>x\<bar>" and hi: "\<bar>x\<bar> < 2 powi (e + 1)"
    and e: "- 1022 \<le> e" "e \<le> 1021"
    and q: "binary64 x = Finite q"
  shows "binary64 q = Finite q"
proof -
  define M where "M = round_half_even (\<bar>x\<bar> / 2 powi (e - 52))"
  define v where "v = rat_of_int M * 2 powi (e - 52)"
  have e': "e \<le> 1022" using e by simp
  note b = binary64_at [OF lo hi e(1) e', folded M_def, folded v_def]
  have "(0::rat) < 2 powi e" by simp
  then have v0: "0 < v" using b(2) by (rule less_le_trans)
  have qv: "q = (if 0 < x then v else - v)" using b(1) q by simp
  then have aq: "\<bar>q\<bar> = v" using v0 by simp
  show ?thesis
  proof (cases "v < 2 powi (e + 1)")
    case True
    show ?thesis
      by (rule binary64_exact [of e q M]) (use b(2) True e aq in \<open>simp_all add: v_def\<close>)
  next
    case False
    then have v: "v = 2 powi (e + 1)" using b(3) by simp
    have "(2::rat) powi (e + 1) < 2 powi (e + 1 + 1)"
      by (intro power_int_strict_increasing) simp_all
    moreover have "(2::rat) powi (e + 1) = rat_of_int (2 ^ 52) * 2 powi (e + 1 - 52)"
      by (simp add: power_int_diff power_int_add)
    ultimately show ?thesis
      by (intro binary64_exact [of "e + 1" q "2 ^ 52"]) (use e aq v in simp_all)
  qed
qed

lemma double_of_int_exact:
  assumes "\<bar>n\<bar> \<le> 2 ^ 53"
  shows "double_of_int n = Finite (of_int n)"
proof (cases "n = 0")
  case True
  then show ?thesis by (simp add: double_of_int_def binary64_def)
next
  case False
  let ?x = "rat_of_int n"
  define e where "e = exponent \<bar>?x\<bar>"
  have ax: "\<bar>?x\<bar> = rat_of_int \<bar>n\<bar>" by simp
  have one: "1 \<le> \<bar>?x\<bar>" using False unfolding ax by (simp only: of_int_1_le_iff)
  have top: "\<bar>?x\<bar> \<le> 2 ^ 53" using assms unfolding ax by (simp only: of_int_le_numeral_power_cancel_iff)
  have "(2::rat) powi (- 1022) \<le> 2 powi 0" by (rule power_int_increasing) simp_all
  then have "(2::rat) powi (- 1022) \<le> 1" by simp
  then have lo: "2 powi (- 1022) \<le> \<bar>?x\<bar>" using one by simp
  have "(2::rat) ^ 53 < 2 powi 1023" by simp
  then have hi: "\<bar>?x\<bar> < 2 powi 1023" using top by simp
  note r = exponent_range [OF lo hi, folded e_def]
  have "(2::rat) powi 0 < 2 powi (e + 1)" using one r(2) by simp
  then have e0: "0 \<le> e" using powi_less_cancel [of 0 "e + 1"] by simp
  have "(2::rat) powi e < 2 powi 54" using r(1) top by simp
  then have e53: "e \<le> 53" using powi_less_cancel [of e 54] by simp
  have "\<exists>k. \<bar>?x\<bar> = rat_of_int k * 2 powi (e - 52)"
  proof (cases "e \<le> 52")
    case True
    have "(2::rat) powi (52 - e) * 2 powi (e - 52) = 1"
      by (simp add: power_int_add [symmetric])
    moreover have "(2::rat) powi (52 - e) = rat_of_int (2 ^ nat (52 - e))"
      using True by (simp add: power_int_nonneg_exp)
    ultimately have "\<bar>?x\<bar> = rat_of_int (\<bar>n\<bar> * 2 ^ nat (52 - e)) * 2 powi (e - 52)"
      by (simp add: mult.assoc)
    then show ?thesis ..
  next
    case False
    then have e: "e = 53" using e53 by simp
    then have "\<bar>?x\<bar> = 2 ^ 53" using r(1) top by simp
    then have "\<bar>?x\<bar> = rat_of_int (2 ^ 52) * 2 powi (e - 52)" by (simp add: e)
    then show ?thesis ..
  qed
  then obtain k where k: "\<bar>?x\<bar> = rat_of_int k * 2 powi (e - 52)" ..
  show ?thesis
    unfolding double_of_int_def by (rule binary64_exact [OF r k])
qed

text \<open>The conversion of a 64-bit integer: a whole number again, which is its own rounding.\<close>

lemma double_of_int_whole:
  assumes "\<bar>n\<bar> < 2 ^ 64"
  shows "\<exists>k. double_of_int n = Finite (rat_of_int k) \<and> binary64 (rat_of_int k) = Finite (rat_of_int k) \<and>
             (k = 0) = (n = 0) \<and> (0 \<le> n \<longrightarrow> 0 \<le> k) \<and> (n \<le> 0 \<longrightarrow> k \<le> 0) \<and>
             (\<bar>n\<bar> \<le> 2 ^ 53 \<longrightarrow> k = n) \<and>
             \<bar>rat_of_int k - rat_of_int n\<bar> \<le> \<bar>rat_of_int n\<bar> / 2 ^ 53"
proof (cases "\<bar>n\<bar> \<le> 2 ^ 53")
  case True
  have "double_of_int n = Finite (rat_of_int n)" by (rule double_of_int_exact [OF True])
  then show ?thesis using True by (intro exI [of _ n]) (simp add: double_of_int_def)
next
  case False
  let ?x = "rat_of_int n"
  define e where "e = exponent \<bar>?x\<bar>"
  define M where "M = round_half_even (\<bar>?x\<bar> / 2 powi (e - 52))"
  define v where "v = rat_of_int M * 2 powi (e - 52)"
  have ax: "\<bar>?x\<bar> = rat_of_int \<bar>n\<bar>" by simp
  have big: "2 ^ 53 < \<bar>?x\<bar>" using False unfolding ax by (simp only: numeral_power_less_of_int_cancel_iff)
  have top: "\<bar>?x\<bar> < 2 ^ 64" using assms unfolding ax by (simp only: of_int_less_numeral_power_cancel_iff)
  have n0: "n \<noteq> 0" using False by auto
  have "(2::rat) powi (- 1022) \<le> 2 powi 0" by (rule power_int_increasing) simp_all
  then have "(2::rat) powi (- 1022) \<le> 1" by simp
  then have lo: "2 powi (- 1022) \<le> \<bar>?x\<bar>" using big by simp
  have "(2::rat) ^ 64 < 2 powi 1023" by simp
  then have hi: "\<bar>?x\<bar> < 2 powi 1023" using top by simp
  note r = exponent_range [OF lo hi, folded e_def]
  have "(2::rat) powi 53 < 2 powi (e + 1)" using big r(2) by simp
  then have e53: "53 \<le> e" using powi_less_cancel [of 53 "e + 1"] by simp
  have "(2::rat) powi e < 2 powi 64" using r(1) top by simp
  then have e64: "e \<le> 63" using powi_less_cancel [of e 64] by simp
  note b = binary64_at [OF r, folded M_def, folded v_def]
  have "(0::rat) < 2 powi e" by simp
  then have v0: "0 < v" using b(2) by (rule less_le_trans)
  define K where "K = M * 2 ^ nat (e - 52)"
  have vK: "v = rat_of_int K"
    using e53 by (simp add: v_def K_def power_int_nonneg_exp)
  then have K0: "0 < K" using v0 by simp
  define k where "k = (if 0 < n then K else - K)"
  have 1: "double_of_int n = Finite (rat_of_int k)"
    using b(1) by (simp add: double_of_int_def k_def vK)
  have e1021: "e \<le> 1021" using e64 by simp
  have 2: "binary64 (rat_of_int k) = Finite (rat_of_int k)"
    by (rule binary64_idem [OF r(1,2,3) e1021]) (use 1 in \<open>simp add: double_of_int_def\<close>)
  have "(2::rat) powi (e - 53) = 2 powi e / 2 ^ 53" by (simp add: power_int_diff)
  also have "\<dots> \<le> \<bar>?x\<bar> / 2 ^ 53" using r(1) by (simp add: divide_right_mono)
  finally have err: "\<bar>v - \<bar>?x\<bar>\<bar> \<le> \<bar>?x\<bar> / 2 ^ 53" using b(4) by simp
  have 3: "\<bar>rat_of_int k - ?x\<bar> \<le> \<bar>?x\<bar> / 2 ^ 53"
  proof (cases "0 < n")
    case True
    then show ?thesis using err by (simp add: k_def vK)
  next
    case False
    then have "n < 0" using n0 by simp
    then have "\<bar>rat_of_int k - ?x\<bar> = \<bar>v - \<bar>?x\<bar>\<bar>" by (simp add: k_def vK)
    then show ?thesis using err by simp
  qed
  show ?thesis
    using 1 2 3 K0 n0 False by (intro exI [of _ k]) (auto simp: k_def)
qed


subsection \<open>The value of \<open>GetTime\<close>\<close>

lemma long_long_id: "- (2 ^ 63) \<le> x \<Longrightarrow> x < 2 ^ 63 \<Longrightarrow> long_long x = x"
  by (simp add: long_long_def)

lemma long_long_range: "- (2 ^ 63) \<le> long_long x \<and> long_long x < 2 ^ 63"
proof -
  have "0 \<le> (x + 2 ^ 63) mod 2 ^ 64" and "(x + 2 ^ 63) mod 2 ^ 64 < 2 ^ 64"
    by simp_all
  then show ?thesis unfolding long_long_def by simp
qed

lemma duration_cast_sgn: "duration_cast_microseconds ns = sgn ns * (\<bar>ns\<bar> div 1000)"
  by (simp add: duration_cast_microseconds_def sgn_if)

lemma duration_cast_abs: "\<bar>duration_cast_microseconds ns\<bar> = \<bar>ns\<bar> div 1000"
  by (simp add: duration_cast_microseconds_def)

lemma duration_cast_floor:
  "0 \<le> ns \<Longrightarrow> duration_cast_microseconds ns = \<lfloor>rat_of_int ns / 1000\<rfloor>"
proof -
  have "\<lfloor>rat_of_int ns / rat_of_int 1000\<rfloor> = ns div 1000"
    by (rule floor_divide_of_int_eq)
  then show "0 \<le> ns \<Longrightarrow> ?thesis"
    by (simp add: duration_cast_microseconds_def)
qed

text \<open>The quotient of two converted integers, the divisor a positive \<open>int\<close>.\<close>

lemma double_div_ints:
  assumes us: "\<bar>us\<bar> < 2 ^ 64" and it: "1 \<le> iterations" "iterations < 2 ^ 31"
  shows "double_div (double_of_int us) (double_of_int iterations) =
           binary64 (value_of (double_of_int us) / rat_of_int iterations)"
proof -
  have "\<bar>iterations\<bar> \<le> 2 ^ 53" using it by simp
  then have i: "double_of_int iterations = Finite (rat_of_int iterations)"
    by (rule double_of_int_exact)
  obtain k where k: "double_of_int us = Finite (rat_of_int k)"
    using double_of_int_whole [OF us] by blast
  show ?thesis
    using it by (simp add: i k double_div_def zero_signed_def binary64_def)
qed

lemma GetTime_at_eq:
  assumes "- (2 ^ 63) \<le> t1 - m_start timer" and "t1 - m_start timer < 2 ^ 63"
    and "1 \<le> iterations" and "iterations < 2 ^ 31"
  shows "GetTime_at timer t1 iterations =
           binary64 (value_of (double_of_int (duration_cast_microseconds (t1 - m_start timer))) /
                     rat_of_int iterations)"
proof -
  let ?d = "t1 - m_start timer"
  have "\<bar>?d\<bar> div 1000 \<le> \<bar>?d\<bar> div 1" by (rule zdiv_mono2) simp_all
  then have "\<bar>duration_cast_microseconds ?d\<bar> < 2 ^ 64"
    unfolding duration_cast_abs using assms(1,2) by simp
  then show ?thesis
    using assms by (simp add: GetTime_at_def long_long_id double_div_ints)
qed


lemma GetTime_at_whole: "\<exists>us. GetTime_at timer stop 1 = Finite (rat_of_int us)"
proof -
  let ?r = "duration_cast_microseconds (long_long (stop - m_start timer))"
  let ?d = "long_long (stop - m_start timer)"
  have "\<bar>?d\<bar> div 1000 \<le> \<bar>?d\<bar> div 1" by (rule zdiv_mono2) simp_all
  moreover have "\<bar>?d\<bar> < 2 ^ 64"
    using long_long_range [of "stop - m_start timer"] by (simp add: abs_less_iff)
  ultimately have r: "\<bar>?r\<bar> < 2 ^ 64"
    unfolding duration_cast_abs by simp
  obtain k where k: "double_of_int ?r = Finite (rat_of_int k)"
    and i: "binary64 (rat_of_int k) = Finite (rat_of_int k)"
    using double_of_int_whole [OF r] by blast
  have "GetTime_at timer stop 1 = binary64 (value_of (double_of_int ?r) / rat_of_int 1)"
    unfolding GetTime_at_def Let_def by (rule double_div_ints [OF r]) simp_all
  then have "GetTime_at timer stop 1 = Finite (rat_of_int k)" by (simp add: k i)
  then show ?thesis ..
qed

lemma GetTime_at_rounded:
  assumes "- (2 ^ 63) \<le> t1 - m_start timer" and "t1 - m_start timer < 2 ^ 63"
    and "1 \<le> iterations" and "iterations < 2 ^ 31"
  defines "us \<equiv> duration_cast_microseconds (t1 - m_start timer)"
  shows "\<exists>k q. double_of_int us = Finite (rat_of_int k) \<and>
           (k = 0) = (us = 0) \<and> (0 \<le> us \<longrightarrow> 0 \<le> k) \<and> (us \<le> 0 \<longrightarrow> k \<le> 0) \<and>
           (\<bar>us\<bar> \<le> 2 ^ 53 \<longrightarrow> k = us) \<and>
           \<bar>rat_of_int k - rat_of_int us\<bar> \<le> \<bar>rat_of_int us\<bar> / 2 ^ 53 \<and>
           GetTime_at timer t1 iterations = binary64 (rat_of_int k / rat_of_int iterations) \<and>
           GetTime_at timer t1 iterations = Finite q \<and>
           (0 \<le> us \<longrightarrow> 0 \<le> q) \<and> (us \<le> 0 \<longrightarrow> q \<le> 0) \<and>
           \<bar>q - rat_of_int k / rat_of_int iterations\<bar> \<le>
             \<bar>rat_of_int k / rat_of_int iterations\<bar> / 2 ^ 53"
proof -
  let ?d = "t1 - m_start timer"
  have "\<bar>?d\<bar> div 1000 \<le> \<bar>?d\<bar> div 1" by (rule zdiv_mono2) simp_all
  moreover have "\<bar>?d\<bar> < 2 ^ 64" using assms(1,2) by (simp add: abs_less_iff)
  ultimately have us64: "\<bar>us\<bar> < 2 ^ 64"
    unfolding us_def duration_cast_abs by simp
  obtain k where k: "double_of_int us = Finite (rat_of_int k)"
    and k0: "(k = 0) = (us = 0)" and kpos: "0 \<le> us \<longrightarrow> 0 \<le> k" and kneg: "us \<le> 0 \<longrightarrow> k \<le> 0"
    and kex: "\<bar>us\<bar> \<le> 2 ^ 53 \<longrightarrow> k = us"
    and kerr: "\<bar>rat_of_int k - rat_of_int us\<bar> \<le> \<bar>rat_of_int us\<bar> / 2 ^ 53"
    using double_of_int_whole [OF us64] by blast
  define x where "x = rat_of_int k / rat_of_int iterations"
  have it: "(0::rat) < rat_of_int iterations" "rat_of_int iterations < 2 ^ 31"
    using assms(3,4) by simp_all
  have g: "GetTime_at timer t1 iterations = binary64 x"
    using GetTime_at_eq [OF assms(1-4)] by (simp add: us_def [symmetric] k x_def)
  have sx: "(0 \<le> us \<longrightarrow> 0 \<le> x) \<and> (us \<le> 0 \<longrightarrow> x \<le> 0)"
    using kpos kneg it by (simp add: x_def zero_le_divide_iff divide_le_0_iff)
  have fin: "\<exists>q. binary64 x = Finite q \<and> (0 \<le> us \<longrightarrow> 0 \<le> q) \<and> (us \<le> 0 \<longrightarrow> q \<le> 0) \<and>
               \<bar>q - x\<bar> \<le> \<bar>x\<bar> / 2 ^ 53"
  proof (cases "k = 0")
    case True
    then show ?thesis by (simp add: x_def binary64_def)
  next
    case False
    then have "1 \<le> \<bar>k\<bar>" by simp
    then have "rat_of_int 1 \<le> rat_of_int \<bar>k\<bar>" by (simp only: of_int_le_iff)
    then have ku: "1 \<le> \<bar>rat_of_int k\<bar>" by simp
    have "\<bar>rat_of_int k\<bar> \<le> \<bar>rat_of_int us\<bar> + \<bar>rat_of_int us\<bar> / 2 ^ 53"
      using kerr by linarith
    also have "\<dots> < 2 ^ 64 + 2 ^ 64 / 2 ^ 53"
    proof -
      have "rat_of_int \<bar>us\<bar> < rat_of_int (2 ^ 64)" using us64 by (simp only: of_int_less_iff)
      then have "\<bar>rat_of_int us\<bar> < 2 ^ 64" by simp
      then show ?thesis by (intro add_strict_mono divide_strict_right_mono) simp_all
    qed
    finally have k65: "\<bar>rat_of_int k\<bar> < 2 ^ 65" by simp
    have ax: "\<bar>x\<bar> = \<bar>rat_of_int k\<bar> / rat_of_int iterations"
      using it by (simp add: x_def)
    have "2 powi (- 31) = 1 / (2::rat) ^ 31" by (simp add: power_int_minus_divide)
    also have "\<dots> \<le> \<bar>rat_of_int k\<bar> / rat_of_int iterations"
      using ku it by (intro frac_le) simp_all
    finally have "(2::rat) powi (- 31) \<le> \<bar>x\<bar>" by (simp add: ax)
    moreover have "(2::rat) powi (- 1022) \<le> 2 powi (- 31)" by (rule power_int_increasing) simp_all
    ultimately have lo: "2 powi (- 1022) \<le> \<bar>x\<bar>" by simp
    have "\<bar>rat_of_int k\<bar> / rat_of_int iterations \<le> \<bar>rat_of_int k\<bar> / 1"
      using assms(3) by (intro divide_left_mono) simp_all
    then have "\<bar>x\<bar> < 2 ^ 65" using k65 by (simp add: ax)
    moreover have "(2::rat) ^ 65 < 2 powi 1023" by simp
    ultimately have hi: "\<bar>x\<bar> < 2 powi 1023" by simp
    obtain q where q: "binary64 x = Finite q" and pos: "0 < x \<longrightarrow> 0 < q" and neg: "x < 0 \<longrightarrow> q < 0"
      and err: "\<bar>q - x\<bar> \<le> \<bar>x\<bar> / 2 ^ 53"
      using binary64_error [OF lo hi] by blast
    have "x \<noteq> 0" using False it by (simp add: x_def)
    then have "(0 \<le> us \<longrightarrow> 0 \<le> q) \<and> (us \<le> 0 \<longrightarrow> q \<le> 0)"
      using sx pos neg by (auto simp: less_le)
    then show ?thesis using q err by blast
  qed
  then obtain q where "binary64 x = Finite q \<and> (0 \<le> us \<longrightarrow> 0 \<le> q) \<and> (us \<le> 0 \<longrightarrow> q \<le> 0) \<and>
               \<bar>q - x\<bar> \<le> \<bar>x\<bar> / 2 ^ 53" ..
  then show ?thesis
    using k k0 kpos kneg kex kerr g unfolding x_def by (intro exI [of _ k] exI [of _ q]) simp
qed

text \<open>A whole quotient of at most 53 bits is returned exactly.\<close>

lemma GetTime_at_exact:
  assumes "- (2 ^ 63) \<le> t1 - m_start timer" and "t1 - m_start timer < 2 ^ 63"
    and "1 \<le> iterations" and "iterations < 2 ^ 31"
    and "duration_cast_microseconds (t1 - m_start timer) = j * iterations"
    and "\<bar>j * iterations\<bar> \<le> 2 ^ 53"
  shows "GetTime_at timer t1 iterations = Finite (rat_of_int j)"
proof -
  have "\<bar>j\<bar> * 1 \<le> \<bar>j\<bar> * \<bar>iterations\<bar>" using assms(3) by (intro mult_left_mono) simp_all
  then have j: "\<bar>j\<bar> \<le> 2 ^ 53" using assms(6) by (simp add: abs_mult)
  have "double_of_int (j * iterations) = Finite (rat_of_int (j * iterations))"
    by (rule double_of_int_exact [OF assms(6)])
  then have "GetTime_at timer t1 iterations =
      binary64 (rat_of_int (j * iterations) / rat_of_int iterations)"
    using GetTime_at_eq [OF assms(1-4)] by (simp add: assms(5))
  also have "rat_of_int (j * iterations) / rat_of_int iterations = rat_of_int j"
    using assms(3) by simp
  also have "binary64 (rat_of_int j) = Finite (rat_of_int j)"
    using double_of_int_exact [OF j] by (simp add: double_of_int_def)
  finally show ?thesis .
qed

lemma binary64_7_3: "binary64 (7 / 3) = Finite (5254199565265579 / 2251799813685248)"
proof -
  have "round_half_even (15762598695796736 / 3) = 5254199565265579"
    by code_simp
  then show ?thesis
    using binary64_at(1) [of 1 "7 / 3"] by (simp add: power_int_minus_divide)
qed

lemma GetTime_at_7_3:
  "GetTime_at \<lparr>m_start = 100\<rparr> 7600 3 = Finite (5254199565265579 / 2251799813685248)"
proof -
  have "GetTime_at \<lparr>m_start = 100\<rparr> 7600 3 =
      binary64 (value_of (double_of_int (duration_cast_microseconds
                 (7600 - m_start \<lparr>m_start = 100\<rparr>))) / rat_of_int 3)"
    by (rule GetTime_at_eq) simp_all
  moreover have "double_of_int 7 = Finite (rat_of_int 7)" by (rule double_of_int_exact) simp
  ultimately show ?thesis by (simp add: duration_cast_microseconds_def binary64_7_3)
qed

lemma binary64_half: "binary64 (1 / 2) = Finite (1 / 2)"
  by (rule binary64_exact [of "- 1" "1 / 2" "2 ^ 52"]) (simp_all add: power_int_minus_divide)

text \<open>The values of \<open>GetTime\<close> in the sample runs.\<close>

lemma GetTime_at_sample_1: "GetTime_at \<lparr>m_start = 1500 * a\<rparr> (1500 * a + 1500) 1 = Finite 1"
  using GetTime_at_exact [of "1500 * a + 1500" "\<lparr>m_start = 1500 * a\<rparr>" 1 1]
  by (simp add: duration_cast_microseconds_def)

lemma GetTime_at_sample_2:
  "GetTime_at \<lparr>m_start = 1500 * a\<rparr> (1500 * a + 1500) 2 = Finite (1 / 2)"
proof -
  have "double_of_int 1 = Finite (rat_of_int 1)" by (rule double_of_int_exact) simp
  then show ?thesis
    using GetTime_at_eq [of "1500 * a + 1500" "\<lparr>m_start = 1500 * a\<rparr>" 2]
    by (simp add: duration_cast_microseconds_def binary64_half)
qed

text \<open>
  Claim C6, as it is stated, fails: after 7500 nanoseconds \<open>GetTime(3)\<close> returns the
  \<open>double\<close> \<open>2.3333333333333335\<close> (\<open>5254199565265579 / 2 ^ 51\<close>), which is neither \<open>7 / 3\<close>
  nor \<open>7.5 / 3\<close>: the elapsed time is first cut to whole microseconds, and the quotient of
  the two \<open>double\<close> values is rounded.
\<close>

theorem GetTime_quotient_is_rounded:
  "GetTime_at \<lparr>m_start = 100\<rparr> 7600 3 = Finite (5254199565265579 / 2251799813685248) \<and>
   GetTime_at \<lparr>m_start = 100\<rparr> 7600 3 \<noteq> Finite (7 / 3) \<and>
   GetTime_at \<lparr>m_start = 100\<rparr> 7600 3 \<noteq> Finite (7500 / 1000 / 3)"
  by (simp add: GetTime_at_7_3)

text \<open>
  Claim C6, amended. For a start timestamp \<open>t0\<close> (the field \<open>m_start\<close>) and a later reading
  \<open>t1 \<ge> t0\<close> of the clock (whose difference is a 64-bit count of nanoseconds,
  \<open>t1 - t0 < 2 ^ 63\<close>) and an \<open>int\<close> \<open>iterations \<ge> 1\<close>: with \<open>us\<close> the elapsed whole microseconds
  (\<open>1000 us \<le> t1 - t0 < 1000 (us + 1)\<close>) and \<open>u\<close> the \<open>double\<close> that \<open>us\<close> converts to (\<open>us\<close>
  itself up to \<open>2 ^ 53\<close>, and never further from \<open>us\<close> than \<open>us / 2 ^ 53\<close>), \<open>GetTime\<close>
  returns the quotient \<open>u / iterations\<close> rounded to the nearest \<open>double\<close>. This value is
  finite and not negative, it differs from \<open>u / iterations\<close> by at most the
  \<open>2 ^ 53\<close>-th part of it, and it is the quotient itself when \<open>iterations\<close> divides \<open>us\<close>
  and \<open>us\<close> is at most \<open>2 ^ 53\<close>.
\<close>

theorem GetTime_rounded_microseconds_per_iteration:
  assumes "m_start timer \<le> t1" and "t1 - m_start timer < 2 ^ 63"
    and "1 \<le> iterations" and "iterations < 2 ^ 31"
  shows "let d = t1 - m_start timer;
             us = d div 1000;
             u = value_of (double_of_int us);
             x = u / rat_of_int iterations;
             q = value_of (GetTime_at timer t1 iterations)
         in us * 1000 \<le> d \<and> d < (us + 1) * 1000 \<and>
            double_of_int us = Finite u \<and>
            (us \<le> 2 ^ 53 \<longrightarrow> u = rat_of_int us) \<and>
            \<bar>u - rat_of_int us\<bar> \<le> rat_of_int us / 2 ^ 53 \<and>
            GetTime_at timer t1 iterations = binary64 x \<and>
            GetTime_at timer t1 iterations = Finite q \<and>
            0 \<le> q \<and>
            \<bar>q - x\<bar> \<le> x / 2 ^ 53 \<and>
            (\<forall>k. us = k * iterations \<and> us \<le> 2 ^ 53 \<longrightarrow> q = rat_of_int k)"
proof -
  define d where "d = t1 - m_start timer"
  define us where "us = d div 1000"
  define u where "u = value_of (double_of_int us)"
  define x where "x = u / rat_of_int iterations"
  define q where "q = value_of (GetTime_at timer t1 iterations)"
  have d0: "0 \<le> d" and d63: "d < 2 ^ 63" using assms(1,2) by (simp_all add: d_def)
  have lo: "- (2 ^ 63) \<le> t1 - m_start timer" using assms(1) by simp
  have cast: "duration_cast_microseconds (t1 - m_start timer) = us"
    using d0 by (simp add: duration_cast_microseconds_def us_def d_def)
  have us0: "0 \<le> us" using d0 by (simp add: us_def)
  have it: "(0::rat) < rat_of_int iterations" using assms(3) by simp
  obtain k q' where k: "double_of_int us = Finite (rat_of_int k)"
    and kpos: "0 \<le> us \<longrightarrow> 0 \<le> k"
    and kex: "\<bar>us\<bar> \<le> 2 ^ 53 \<longrightarrow> k = us"
    and kerr: "\<bar>rat_of_int k - rat_of_int us\<bar> \<le> \<bar>rat_of_int us\<bar> / 2 ^ 53"
    and g: "GetTime_at timer t1 iterations = binary64 (rat_of_int k / rat_of_int iterations)"
    and fin: "GetTime_at timer t1 iterations = Finite q'"
    and qpos: "0 \<le> us \<longrightarrow> 0 \<le> q'"
    and qerr: "\<bar>q' - rat_of_int k / rat_of_int iterations\<bar> \<le>
                 \<bar>rat_of_int k / rat_of_int iterations\<bar> / 2 ^ 53"
    using GetTime_at_rounded [OF lo assms(2-4)] unfolding cast by blast
  have u: "u = rat_of_int k" by (simp add: u_def k)
  have q: "q = q'" by (simp add: q_def fin)
  have x0: "0 \<le> x" using kpos us0 it by (simp add: x_def u)
  have exact: "q = rat_of_int j" if "us = j * iterations \<and> us \<le> 2 ^ 53" for j
  proof -
    have "\<bar>j * iterations\<bar> \<le> 2 ^ 53" using that us0 by simp
    then have "GetTime_at timer t1 iterations = Finite (rat_of_int j)"
      using GetTime_at_exact [OF lo assms(2-4), of j] that by (simp add: cast)
    then show ?thesis by (simp add: q_def)
  qed
  have "us * 1000 \<le> d \<and> d < (us + 1) * 1000" unfolding us_def by presburger
  moreover have "double_of_int us = Finite u" by (simp add: u k)
  moreover have "us \<le> 2 ^ 53 \<longrightarrow> u = rat_of_int us" using kex us0 by (simp add: u)
  moreover have "\<bar>u - rat_of_int us\<bar> \<le> rat_of_int us / 2 ^ 53" using kerr us0 by (simp add: u)
  moreover have "GetTime_at timer t1 iterations = binary64 x" using g by (simp add: x_def u)
  moreover have "GetTime_at timer t1 iterations = Finite q" using fin by (simp add: q)
  moreover have "0 \<le> q" using qpos us0 by (simp add: q)
  moreover have "\<bar>q - x\<bar> \<le> x / 2 ^ 53" using qerr x0 by (simp add: q x_def u)
  ultimately show ?thesis
    using exact
    unfolding Let_def d_def [symmetric] us_def [symmetric] u_def [symmetric] x_def [symmetric]
      q_def [symmetric]
    by blast
qed

theorem GetTime_rounded_microseconds_per_iteration_witness:
  "GetTime_at \<lparr>m_start = 100\<rparr> 7600 3 = binary64 (7 / 3) \<and>
   binary64 (7 / 3) = Finite (5254199565265579 / 2251799813685248) \<and>
   0 \<le> value_of (GetTime_at \<lparr>m_start = 100\<rparr> 7600 3) \<and>
   GetTime_at \<lparr>m_start = 100\<rparr> 7600 7 = Finite 1"
proof -
  have three: "GetTime_at \<lparr>m_start = 100\<rparr> 7600 3 = binary64 (7 / 3) \<and>
      0 \<le> value_of (GetTime_at \<lparr>m_start = 100\<rparr> 7600 3)"
    using GetTime_rounded_microseconds_per_iteration [of "\<lparr>m_start = 100\<rparr>" 7600 3]
    by (simp add: Let_def binary64_7_3)
  have one: "binary64 1 = Finite 1"
    using double_of_int_exact [of 1] by (simp add: double_of_int_def)
  have seven: "GetTime_at \<lparr>m_start = 100\<rparr> 7600 7 = Finite 1"
    using GetTime_rounded_microseconds_per_iteration [of "\<lparr>m_start = 100\<rparr>" 7600 7]
    by (simp add: Let_def one)
  show ?thesis
    using three seven binary64_7_3 by simp
qed

text \<open>
  Claim C10, as it is stated, fails for a reading of the clock before the start: with the
  start at 1999 nanoseconds and the reading at 0, \<open>GetTime(1)\<close> returns \<open>-1\<close>, and the floor
  of the elapsed microseconds is \<open>-2\<close>. It fails for the quotient too, which is rounded:
  after 7500 nanoseconds \<open>GetTime(3)\<close> is not \<open>7 / 3\<close>.
\<close>

theorem GetTime_is_not_floor:
  "GetTime_at \<lparr>m_start = 1999\<rparr> 0 1 = Finite (- 1) \<and>
   \<lfloor>rat_of_int (0 - 1999) / 1000\<rfloor> = - 2 \<and>
   \<lfloor>rat_of_int (7600 - 100) / 1000\<rfloor> = 7 \<and>
   GetTime_at \<lparr>m_start = 100\<rparr> 7600 3 \<noteq> Finite (7 / 3)"
proof -
  have "GetTime_at \<lparr>m_start = 1999\<rparr> 0 1 = Finite (rat_of_int (- 1))"
    by (rule GetTime_at_exact) (simp_all add: duration_cast_microseconds_def)
  moreover have "\<lfloor>(- 1999 :: rat) / 1000\<rfloor> = - 2" and "\<lfloor>(15 :: rat) / 2\<rfloor> = 7"
    by (simp_all add: floor_eq_iff)
  ultimately show ?thesis
    by (simp add: GetTime_at_7_3)
qed

text \<open>
  Claim C10, amended. \<open>GetTime\<close> cuts the elapsed time to whole microseconds before it
  divides, rounding towards zero: for a start timestamp and a reading of the clock whose
  difference \<open>d\<close> is a 64-bit count of nanoseconds, and an \<open>int\<close> \<open>iterations \<ge> 1\<close>, the
  count of microseconds is \<open>us = sgn d * (\<bar>d\<bar> div 1000)\<close>, the floor of \<open>d / 1000\<close> when
  \<open>d \<ge> 0\<close> and the ceiling when \<open>d \<le> 0\<close>. The value returned is the quotient of \<open>u\<close>, the
  \<open>double\<close> that \<open>us\<close> converts to (\<open>us\<close> itself up to \<open>2 ^ 53\<close>), by \<open>iterations\<close>, rounded to
  the nearest \<open>double\<close>: a finite value within the \<open>2 ^ 53\<close>-th part of the quotient. An
  elapsed time strictly under one microsecond gives exactly \<open>0\<close>, whatever \<open>iterations\<close> is.
\<close>

theorem GetTime_truncates_towards_zero:
  assumes "- (2 ^ 63) \<le> t1 - m_start timer" and "t1 - m_start timer < 2 ^ 63"
    and "1 \<le> iterations" and "iterations < 2 ^ 31"
  shows "let d = t1 - m_start timer;
             us = sgn d * (\<bar>d\<bar> div 1000);
             u = value_of (double_of_int us);
             x = u / rat_of_int iterations;
             q = value_of (GetTime_at timer t1 iterations)
         in (0 \<le> d \<longrightarrow> us = \<lfloor>rat_of_int d / 1000\<rfloor>) \<and>
            (d \<le> 0 \<longrightarrow> us = \<lceil>rat_of_int d / 1000\<rceil>) \<and>
            double_of_int us = Finite u \<and>
            (\<bar>us\<bar> \<le> 2 ^ 53 \<longrightarrow> u = rat_of_int us) \<and>
            GetTime_at timer t1 iterations = binary64 x \<and>
            GetTime_at timer t1 iterations = Finite q \<and>
            \<bar>q - x\<bar> \<le> \<bar>x\<bar> / 2 ^ 53 \<and>
            (\<bar>d\<bar> < 1000 \<longrightarrow> GetTime_at timer t1 iterations = Finite 0)"
proof -
  define d where "d = t1 - m_start timer"
  define us where "us = sgn d * (\<bar>d\<bar> div 1000)"
  define u where "u = value_of (double_of_int us)"
  define x where "x = u / rat_of_int iterations"
  define q where "q = value_of (GetTime_at timer t1 iterations)"
  have cast: "duration_cast_microseconds (t1 - m_start timer) = us"
    by (simp add: duration_cast_sgn us_def d_def)
  obtain k q' where k: "double_of_int us = Finite (rat_of_int k)"
    and k0: "(k = 0) = (us = 0)"
    and kex: "\<bar>us\<bar> \<le> 2 ^ 53 \<longrightarrow> k = us"
    and g: "GetTime_at timer t1 iterations = binary64 (rat_of_int k / rat_of_int iterations)"
    and fin: "GetTime_at timer t1 iterations = Finite q'"
    and qerr: "\<bar>q' - rat_of_int k / rat_of_int iterations\<bar> \<le>
                 \<bar>rat_of_int k / rat_of_int iterations\<bar> / 2 ^ 53"
    using GetTime_at_rounded [OF assms] unfolding cast by blast
  have u: "u = rat_of_int k" by (simp add: u_def k)
  have q: "q = q'" by (simp add: q_def fin)
  have fl: "us = \<lfloor>rat_of_int d / 1000\<rfloor>" if "0 \<le> d"
    using duration_cast_floor [OF that] cast by (simp add: d_def)
  have ce: "us = \<lceil>rat_of_int d / 1000\<rceil>" if "d \<le> 0"
  proof -
    have "0 \<le> - d" using that by simp
    then have "duration_cast_microseconds (- d) = \<lfloor>rat_of_int (- d) / 1000\<rfloor>"
      by (rule duration_cast_floor)
    moreover have "duration_cast_microseconds (- d) = - us"
      by (simp add: duration_cast_sgn us_def)
    ultimately have "us = - \<lfloor>- (rat_of_int d / 1000)\<rfloor>" by simp
    then show ?thesis by (simp add: ceiling_def)
  qed
  have zero: "GetTime_at timer t1 iterations = Finite 0" if "\<bar>d\<bar> < 1000"
  proof -
    have "us = 0" using that by (simp add: us_def)
    then have "k = 0" using k0 by simp
    then show ?thesis using g by (simp add: binary64_def)
  qed
  have "double_of_int us = Finite u" by (simp add: u k)
  moreover have "\<bar>us\<bar> \<le> 2 ^ 53 \<longrightarrow> u = rat_of_int us" using kex by (simp add: u)
  moreover have "GetTime_at timer t1 iterations = binary64 x" using g by (simp add: x_def u)
  moreover have "GetTime_at timer t1 iterations = Finite q" using fin by (simp add: q)
  moreover have "\<bar>q - x\<bar> \<le> \<bar>x\<bar> / 2 ^ 53" using qerr by (simp add: q x_def u)
  ultimately show ?thesis
    using fl ce zero
    unfolding Let_def d_def [symmetric] us_def [symmetric] u_def [symmetric] x_def [symmetric]
      q_def [symmetric]
    by blast
qed

theorem GetTime_truncates_towards_zero_witness:
  "GetTime_at \<lparr>m_start = 1999\<rparr> 0 1 = Finite (- 1) \<and>
   GetTime_at \<lparr>m_start = 100\<rparr> 1099 3 = Finite 0 \<and>
   GetTime_at \<lparr>m_start = 1099\<rparr> 100 3 = Finite 0"
proof -
  have one: "binary64 (- 1) = Finite (- 1)"
    using double_of_int_exact [of "- 1"] by (simp add: double_of_int_def)
  have c: "\<lceil>- (1999 / 1000 :: rat)\<rceil> = - 1"
    by (simp add: ceiling_eq_iff)
  have zero: "binary64 0 = Finite 0"
    by (simp add: binary64_def)
  have "GetTime_at \<lparr>m_start = 1999\<rparr> 0 1 = Finite (- 1)"
    using GetTime_truncates_towards_zero [of 0 "\<lparr>m_start = 1999\<rparr>" 1]
    by (simp add: Let_def one c)
  moreover have "GetTime_at \<lparr>m_start = 100\<rparr> 1099 3 = Finite 0"
    using GetTime_truncates_towards_zero [of 1099 "\<lparr>m_start = 100\<rparr>" 3]
    by (simp add: Let_def zero)
  moreover have "GetTime_at \<lparr>m_start = 1099\<rparr> 100 3 = Finite 0"
    using GetTime_truncates_towards_zero [of 100 "\<lparr>m_start = 1099\<rparr>" 3]
    by (simp add: Let_def zero)
  ultimately show ?thesis by simp
qed

section \<open>Properties of ScopedHandle\<close>

text \<open>
  Claim C5 holds of the move constructor, which gives the new handle the value of the
  source and leaves the source null, so that the destructor of the source releases
  nothing. It fails where a native call fails: the handle the call was given to fill was
  default-constructed, its field is unset, and its destructor passes the field to
  \<open>CloseHandle\<close> all the same. In scenario 6 with one collision, when the creation of the
  base directory returns the handle \<open>4\<close>, the creation of the colliding directory fails and
  the unset field holds \<open>4\<close>, the value \<open>4\<close> is acquired once and released twice: by the
  handle that never acquired it, and by \<open>base_dir\<close> when the scope ends.
\<close>

theorem unset_handle_is_released:
  "fst (ScopedHandle_move \<lparr>m_handle = 4\<rparr>) = \<lparr>m_handle = 4\<rparr> \<and>
   snd (ScopedHandle_move \<lparr>m_handle = 4\<rparr>) = \<lparr>m_handle = nullptr\<rparr> \<and>
   trace (destroy (m_handle (snd (ScopedHandle_move \<lparr>m_handle = 4\<rparr>))) failing_world) = [] \<and>
   trace (destroy (m_handle (ScopedHandle_default 4)) failing_world) = [CloseHandle 4] \<and>
   fst (Test6 [''1''] failing_world) = Some (Thrown (NtException 0xC0000035)) \<and>
   trace (snd (Test6 [''1''] failing_world)) =
     [Call (NtCreateDirectoryObjectEx (wide (bs ''BaseNamedObjects'' @ bs ''A'')) nullptr nullptr)
        \<lparr>r_status = 0, r_handle = 4, r_name = []\<rparr>,
      Now 0,
      Call (NtCreateDirectoryObjectEx [0, 0x41] 4 nullptr)
        \<lparr>r_status = 0xC0000035, r_handle = 4, r_name = []\<rparr>,
      CloseHandle 4,
      CloseHandle 4] \<and>
   acquired fills (trace (snd (Test6 [''1''] failing_world))) = [4] \<and>
   releases (trace (snd (Test6 [''1''] failing_world))) = [4, 4]"
  by (simp add: ScopedHandle_move_def ScopedHandle_default_def Test6_def Test6_body_def
      Test6_names_def Test6_names_loop.simps MakeCollisionName_def MakeNullString_def
      MakeNullString_loop.simps Timer_start_def CreateDirectory_def native_def now_def
      destroy_def destroy_all_def Check_def NT_ERROR_def UnicodeString_def GetArg_def atoi_def
      isspace_def isdigit_def INT_MAX_def INT_MIN_def nullptr_def failing_world_def
      STATUS_SUCCESS_def STATUS_OBJECT_NAME_COLLISION_def wide_def bs_def Let_def)

section \<open>Properties of the environment and the operations\<close>

subsection \<open>The primitives, field by field\<close>

lemma native_fst [simp]: "fst (native c w) = os w (calls w)"
  and native_os [simp]: "os (snd (native c w)) = os w"
  and native_clock [simp]: "clock (snd (native c w)) = clock w"
  and native_calls [simp]: "calls (snd (native c w)) = Suc (calls w)"
  and native_reads [simp]: "reads (snd (native c w)) = reads w"
  and native_trace [simp]: "trace (snd (native c w)) = trace w @ [Call c (os w (calls w))]"
  by (simp_all add: native_def Let_def)

lemma now_fst [simp]: "fst (now w) = clock w (reads w)"
  and now_os [simp]: "os (snd (now w)) = os w"
  and now_clock [simp]: "clock (snd (now w)) = clock w"
  and now_calls [simp]: "calls (snd (now w)) = calls w"
  and now_reads [simp]: "reads (snd (now w)) = Suc (reads w)"
  and now_trace [simp]: "trace (snd (now w)) = trace w @ [Now (clock w (reads w))]"
  by (simp_all add: now_def Let_def)

lemma printf_os [simp]: "os (printf p w) = os w"
  and printf_clock [simp]: "clock (printf p w) = clock w"
  and printf_calls [simp]: "calls (printf p w) = calls w"
  and printf_reads [simp]: "reads (printf p w) = reads w"
  and printf_trace [simp]: "trace (printf p w) = trace w @ [Printf p]"
  by (simp_all add: printf_def)

lemma destroy_os [simp]: "os (destroy h w) = os w"
  and destroy_clock [simp]: "clock (destroy h w) = clock w"
  and destroy_calls [simp]: "calls (destroy h w) = calls w"
  and destroy_reads [simp]: "reads (destroy h w) = reads w"
  and destroy_trace: "trace (destroy h w) = trace w @ (if h = nullptr then [] else [CloseHandle h])"
  by (simp_all add: destroy_def)

lemma destroy_all_Nil [simp]: "destroy_all [] w = w"
  and destroy_all_Cons [simp]: "destroy_all (h # hs) w = destroy_all hs (destroy h w)"
  by (simp_all add: destroy_all_def)

lemma destroy_all_os [simp]: "os (destroy_all hs w) = os w"
  by (induction hs arbitrary: w) simp_all

lemma destroy_all_clock [simp]: "clock (destroy_all hs w) = clock w"
  by (induction hs arbitrary: w) simp_all

lemma destroy_all_calls [simp]: "calls (destroy_all hs w) = calls w"
  by (induction hs arbitrary: w) simp_all

lemma destroy_all_reads [simp]: "reads (destroy_all hs w) = reads w"
  by (induction hs arbitrary: w) simp_all

lemma destroy_all_trace:
  "trace (destroy_all hs w) = trace w @ map CloseHandle (filter (\<lambda>h. h \<noteq> nullptr) hs)"
  by (induction hs arbitrary: w) (simp_all add: destroy_trace)

lemma Timer_start_eq: "Timer_start w = (\<lparr>m_start = clock w (reads w)\<rparr>, snd (now w))"
  by (simp add: Timer_start_def now_def Let_def)

lemma GetTime_eq:
  "GetTime timer iterations w = (GetTime_at timer (clock w (reads w)) iterations, snd (now w))"
  by (simp add: GetTime_def now_def Let_def)

subsection \<open>The operations, by the status of their call\<close>

lemma CreateDirectory_eq:
  "CreateDirectory name root_dir shadow_dir w =
     (if NT_ERROR (r_status (os w (calls w)))
      then (Inl (NtException (r_status (os w (calls w)))),
            destroy (r_handle (os w (calls w)))
              (snd (native (NtCreateDirectoryObjectEx (UnicodeString name) root_dir shadow_dir) w)))
      else (Inr (r_handle (os w (calls w))),
            snd (native (NtCreateDirectoryObjectEx (UnicodeString name) root_dir shadow_dir) w)))"
  by (simp add: CreateDirectory_def native_def Check_def Let_def)

lemma OpenDirectory_eq:
  "OpenDirectory name root_dir w =
     (if NT_ERROR (r_status (os w (calls w)))
      then (Inl (NtException (r_status (os w (calls w)))),
            destroy (r_handle (os w (calls w)))
              (snd (native (NtOpenDirectoryObject (UnicodeString name) root_dir) w)))
      else (Inr (r_handle (os w (calls w))),
            snd (native (NtOpenDirectoryObject (UnicodeString name) root_dir) w)))"
  by (simp add: OpenDirectory_def native_def Check_def Let_def)

lemma CreateLink_eq:
  "CreateLink name root_dir target w =
     (if NT_ERROR (r_status (os w (calls w)))
      then (Inl (NtException (r_status (os w (calls w)))),
            destroy (r_handle (os w (calls w)))
              (snd (native (NtCreateSymbolicLinkObject (UnicodeString name) root_dir
                              (UnicodeString target)) w)))
      else (Inr (r_handle (os w (calls w))),
            snd (native (NtCreateSymbolicLinkObject (UnicodeString name) root_dir
                           (UnicodeString target)) w)))"
  by (simp add: CreateLink_def native_def Check_def Let_def)

lemma CreateEvent_eq:
  "CreateEvent name root_dir w =
     (if NT_ERROR (r_status (os w (calls w)))
      then (Inl (NtException (r_status (os w (calls w)))),
            destroy (r_handle (os w (calls w)))
              (snd (native (NtCreateEvent (UnicodeString name) root_dir) w)))
      else (Inr (r_handle (os w (calls w))),
            snd (native (NtCreateEvent (UnicodeString name) root_dir) w)))"
  by (simp add: CreateEvent_def native_def Check_def Let_def)

lemma GetName_eq:
  "GetName handle w =
     (if NT_ERROR (r_status (os w (calls w)))
      then (Inl (NtException (r_status (os w (calls w)))), snd (native (NtQueryObject handle) w))
      else (Inr (r_name (os w (calls w))), snd (native (NtQueryObject handle) w)))"
  by (simp add: GetName_def native_def Check_def Let_def)

lemma RunTest_loop_done:
  "\<not> i < iterations \<Longrightarrow> RunTest_loop i iterations name handles w = (None, handles, w)"
  by (subst RunTest_loop.simps) simp

lemma RunTest_loop_step:
  "i < iterations \<Longrightarrow> \<not> NT_ERROR (r_status (os w (calls w))) \<Longrightarrow>
   RunTest_loop i iterations name handles w =
     RunTest_loop (i + 1) iterations name (handles @ [r_handle (os w (calls w))])
       (snd (native (NtOpenEvent (UnicodeString name)) w))"
  by (subst RunTest_loop.simps) (simp add: native_def Check_def Let_def)

lemma RunTest_loop_cases:
  "RunTest_loop i iterations name handles w =
     (if i < iterations then
        (if NT_ERROR (r_status (os w (calls w)))
         then (Some (NtException (r_status (os w (calls w)))), handles,
               snd (native (NtOpenEvent (UnicodeString name)) w))
         else RunTest_loop (i + 1) iterations name (handles @ [r_handle (os w (calls w))])
                (snd (native (NtOpenEvent (UnicodeString name)) w)))
      else (None, handles, w))"
  by (subst RunTest_loop.simps) (simp add: native_def Check_def Let_def)

subsection \<open>Standard output\<close>

lemma prints_append [simp]: "prints (xs @ ys) = prints xs @ prints ys"
  by (induction xs rule: prints.induct) simp_all

lemma prints_CloseHandle [simp]: "prints (map CloseHandle hs) = []"
  by (induction hs) simp_all

lemma stdout_native [simp]: "stdout_of (snd (native c w)) = stdout_of w"
  and stdout_now [simp]: "stdout_of (snd (now w)) = stdout_of w"
  and stdout_printf [simp]: "stdout_of (printf p w) = stdout_of w @ [p]"
  and stdout_destroy [simp]: "stdout_of (destroy h w) = stdout_of w"
  and stdout_destroy_all [simp]: "stdout_of (destroy_all hs w) = stdout_of w"
  by (simp_all add: stdout_of_def destroy_trace destroy_all_trace)

lemma stdout_CreateDirectory [simp]:
  "stdout_of (snd (CreateDirectory name root_dir shadow_dir w)) = stdout_of w"
  by (simp add: CreateDirectory_eq)

lemma stdout_OpenDirectory [simp]:
  "stdout_of (snd (OpenDirectory name root_dir w)) = stdout_of w"
  by (simp add: OpenDirectory_eq)

lemma stdout_CreateLink [simp]:
  "stdout_of (snd (CreateLink name root_dir target w)) = stdout_of w"
  by (simp add: CreateLink_eq)

lemma stdout_CreateEvent [simp]:
  "stdout_of (snd (CreateEvent name root_dir w)) = stdout_of w"
  by (simp add: CreateEvent_eq)

lemma stdout_GetName [simp]: "stdout_of (snd (GetName handle w)) = stdout_of w"
  by (simp add: GetName_eq)

lemma stdout_RunTest_loop [simp]:
  "stdout_of (snd (snd (RunTest_loop i iterations name handles w))) = stdout_of w"
proof (induction "nat (iterations - i)" arbitrary: i handles w)
  case 0
  then show ?case by (simp add: RunTest_loop_done)
next
  case (Suc k)
  then have k: "k = nat (iterations - (i + 1))" and i: "i < iterations" by simp_all
  show ?case
    using Suc.hyps(1) [OF k] i by (subst RunTest_loop_cases) simp
qed

lemma RunTest_body_eq:
  "RunTest_body name iterations create_name root_dir w =
     (case CreateEvent (if create_name = [] then name else create_name) root_dir w of
        (Inl ex, w1) \<Rightarrow> (Inl ex, [], w1)
      | (Inr event_handle, w1) \<Rightarrow>
          (case RunTest_loop 0 iterations name [] (snd (now w1)) of
             (Some ex, handles, w3) \<Rightarrow> (Inl ex, handles @ [event_handle], w3)
           | (None, handles, w3) \<Rightarrow>
               (Inr (GetTime_at \<lparr>m_start = clock w1 (reads w1)\<rparr> (clock w3 (reads w3)) iterations),
                handles @ [event_handle], snd (now w3))))"
  by (simp add: RunTest_body_def Timer_start_eq GetTime_eq Let_def split: prod.splits sum.splits option.splits)

lemma stdout_RunTest_body [simp]:
  "stdout_of (snd (snd (RunTest_body name iterations create_name root_dir w))) = stdout_of w"
proof -
  obtain r w1 where c: "CreateEvent (if create_name = [] then name else create_name) root_dir w = (r, w1)"
    by (cases "CreateEvent (if create_name = [] then name else create_name) root_dir w")
  then have w1: "stdout_of w1 = stdout_of w"
    using stdout_CreateEvent [of "if create_name = [] then name else create_name" root_dir w] by simp
  obtain a hs w3 where l: "RunTest_loop 0 iterations name [] (snd (now w1)) = (a, hs, w3)"
    by (cases "RunTest_loop 0 iterations name [] (snd (now w1))")
  then have w3: "stdout_of w3 = stdout_of w"
    using stdout_RunTest_loop [of 0 iterations name "[]" "snd (now w1)"] w1 by simp
  show ?thesis
    using c l w1 w3 by (simp add: RunTest_body_eq split: sum.splits option.splits)
qed

lemma stdout_RunTest [simp]:
  "stdout_of (snd (RunTest name iterations create_name root_dir w)) = stdout_of w"
  using stdout_RunTest_body [of name iterations create_name root_dir w]
  by (cases "RunTest_body name iterations create_name root_dir w") (simp add: RunTest_def)


section \<open>Properties of scenario 3\<close>

lemma sampled_empty: "\<not> i < n \<Longrightarrow> sampled i n = []"
  by (simp add: sampled_def)

lemma sampled_step:
  "i < n \<Longrightarrow> sampled i n = (if i mod 500 = 0 then [i] else []) @ sampled (i + 1) n"
  by (simp add: sampled_def upto_rec1 [of i "n - 1"])

lemma Test3_loop_stdout:
  "\<exists>ts. length ts \<le> length (sampled i n) \<and>
        (fst (Test3_loop i n it last_dir dirs w) = None \<longrightarrow> length ts = length (sampled i n)) \<and>
        stdout_of (snd (snd (Test3_loop i n it last_dir dirs w))) =
          stdout_of w @ map2 (\<lambda>k t. Int_and_time (k + 1) t) (sampled i n) ts"
proof (induction "nat (n - i)" arbitrary: i last_dir dirs w)
  case 0
  then have "\<not> i < n" by simp
  then show ?case
    by (subst (1 2) Test3_loop.simps) (simp add: sampled_empty)
next
  case (Suc k)
  then have k: "k = nat (n - (i + 1))" and i: "i < n" by simp_all
  note IH = Suc.hyps(1) [OF k]
  obtain r1 w1 where c: "CreateDirectory (wide ''A'') last_dir nullptr w = (r1, w1)"
    by (cases "CreateDirectory (wide ''A'') last_dir nullptr w")
  have w1: "stdout_of w1 = stdout_of w"
    using stdout_CreateDirectory [of "wide ''A''" last_dir nullptr w] c by simp
  show ?case
  proof (cases r1)
    case (Inl ex)
    have "Test3_loop i n it last_dir dirs w = (Some (Thrown ex), dirs, w1)"
      using i c Inl by (subst Test3_loop.simps) simp
    then show ?thesis
      using w1 by (intro exI [of _ "[]"]) simp
  next
    case (Inr h)
    show ?thesis
    proof (cases "i mod 500 = 0")
      case False
      have eq: "Test3_loop i n it last_dir dirs w = Test3_loop (i + 1) n it h (dirs @ [h]) w1"
        using i c Inr False by (subst Test3_loop.simps) simp
      have s: "sampled i n = sampled (i + 1) n"
        using i False by (simp add: sampled_step)
      show ?thesis
        using IH [of h "dirs @ [h]" w1] by (simp only: eq s w1)
    next
      case True
      have s: "sampled i n = i # sampled (i + 1) n"
        using i True by (simp add: sampled_step)
      obtain r2 w2 where g: "GetName h w1 = (r2, w2)"
        by (cases "GetName h w1")
      have w2: "stdout_of w2 = stdout_of w"
        using stdout_GetName [of h w1] g w1 by simp
      show ?thesis
      proof (cases r2)
        case (Inl ex)
        have "Test3_loop i n it last_dir dirs w = (Some (Thrown ex), dirs @ [h], w2)"
          using i c Inr True g Inl by (subst Test3_loop.simps) simp
        then show ?thesis
          using w2 by (intro exI [of _ "[]"]) simp
      next
        case name: (Inr last_dir_name)
        obtain r3 w3 where t: "RunTest (last_dir_name @ wide (bs ''X'')) it [] nullptr w2 = (r3, w3)"
          by (cases "RunTest (last_dir_name @ wide (bs ''X'')) it [] nullptr w2")
        have w3: "stdout_of w3 = stdout_of w"
          using stdout_RunTest [of "last_dir_name @ wide (bs ''X'')" it "[]" nullptr w2] t w2
          by simp
        show ?thesis
        proof (cases r3)
          case (Inl ex)
          have "Test3_loop i n it last_dir dirs w = (Some (Thrown ex), dirs @ [h], w3)"
            using i c Inr True g name t Inl by (subst Test3_loop.simps) simp
          then show ?thesis
            using w3 by (intro exI [of _ "[]"]) simp
        next
          case result: (Inr result)
          have eq: "Test3_loop i n it last_dir dirs w =
                  Test3_loop (i + 1) n it h (dirs @ [h]) (printf (Int_and_time (i + 1) result) w3)"
            using i c Inr True g name t result by (subst Test3_loop.simps) simp
          obtain ts where ts: "length ts \<le> length (sampled (i + 1) n) \<and>
            (fst (Test3_loop (i + 1) n it h (dirs @ [h]) (printf (Int_and_time (i + 1) result) w3)) = None
               \<longrightarrow> length ts = length (sampled (i + 1) n)) \<and>
            stdout_of (snd (snd (Test3_loop (i + 1) n it h (dirs @ [h])
                 (printf (Int_and_time (i + 1) result) w3)))) =
               stdout_of (printf (Int_and_time (i + 1) result) w3) @
                 map2 (\<lambda>k t. Int_and_time (k + 1) t) (sampled (i + 1) n) ts"
            using IH [of h "dirs @ [h]" "printf (Int_and_time (i + 1) result) w3"] ..
          show ?thesis
            using ts w3 by (intro exI [of _ "result # ts"]) (simp add: eq s)
        qed
      qed
    qed
  qed
qed


subsection \<open>Runs in which no native call fails\<close>

lemma cooperative_os: "os w' = os w \<Longrightarrow> cooperative w' = cooperative w"
  by (simp add: cooperative_def)

lemma cooperative_ok: "cooperative w \<Longrightarrow> \<not> NT_ERROR (r_status (os w n))"
  by (simp add: cooperative_def)

lemma CreateDirectory_os [simp]:
  "os (snd (CreateDirectory name root_dir shadow_dir w)) = os w"
  by (simp add: CreateDirectory_eq)

lemma OpenDirectory_os [simp]: "os (snd (OpenDirectory name root_dir w)) = os w"
  by (simp add: OpenDirectory_eq)

lemma CreateEvent_os [simp]: "os (snd (CreateEvent name root_dir w)) = os w"
  by (simp add: CreateEvent_eq)

lemma GetName_os [simp]: "os (snd (GetName handle w)) = os w"
  by (simp add: GetName_eq)

lemma RunTest_loop_os [simp]:
  "os (snd (snd (RunTest_loop i iterations name handles w))) = os w"
proof (induction "nat (iterations - i)" arbitrary: i handles w)
  case 0
  then show ?case by (simp add: RunTest_loop_done)
next
  case (Suc k)
  then have k: "k = nat (iterations - (i + 1))" and i: "i < iterations" by simp_all
  show ?case
    using Suc.hyps(1) [OF k] i by (subst RunTest_loop_cases) simp
qed

lemma RunTest_loop_cooperative:
  "cooperative w \<Longrightarrow> fst (RunTest_loop i iterations name handles w) = None"
proof (induction "nat (iterations - i)" arbitrary: i handles w)
  case 0
  then show ?case by (simp add: RunTest_loop_done)
next
  case (Suc k)
  then have k: "k = nat (iterations - (i + 1))" and i: "i < iterations" by simp_all
  have ok: "\<not> NT_ERROR (r_status (os w (calls w)))"
    using Suc.prems by (rule cooperative_ok)
  have "cooperative (snd (native (NtOpenEvent (UnicodeString name)) w))"
    using Suc.prems by (simp add: cooperative_def)
  then have "fst (RunTest_loop (i + 1) iterations name (handles @ [r_handle (os w (calls w))])
               (snd (native (NtOpenEvent (UnicodeString name)) w))) = None"
    by (rule Suc.hyps(1) [OF k])
  then show ?case
    using i ok by (simp add: RunTest_loop_step)
qed

lemma RunTest_body_os [simp]:
  "os (snd (snd (RunTest_body name iterations create_name root_dir w))) = os w"
proof -
  obtain r w1 where c: "CreateEvent (if create_name = [] then name else create_name) root_dir w = (r, w1)"
    by (cases "CreateEvent (if create_name = [] then name else create_name) root_dir w")
  then have w1: "os w1 = os w"
    using CreateEvent_os [of "if create_name = [] then name else create_name" root_dir w] by simp
  obtain a hs w3 where l: "RunTest_loop 0 iterations name [] (snd (now w1)) = (a, hs, w3)"
    by (cases "RunTest_loop 0 iterations name [] (snd (now w1))")
  then have w3: "os w3 = os w"
    using RunTest_loop_os [of 0 iterations name "[]" "snd (now w1)"] w1 by simp
  show ?thesis
    using c l w1 w3 by (simp add: RunTest_body_eq split: sum.splits option.splits)
qed

lemma RunTest_os [simp]:
  "os (snd (RunTest name iterations create_name root_dir w)) = os w"
  using RunTest_body_os [of name iterations create_name root_dir w]
  by (cases "RunTest_body name iterations create_name root_dir w") (simp add: RunTest_def)

lemma RunTest_cooperative:
  assumes "cooperative w"
  shows "\<exists>t. fst (RunTest name iterations create_name root_dir w) = Inr t"
proof -
  let ?create = "if create_name = [] then name else create_name"
  have c: "CreateEvent ?create root_dir w =
             (Inr (r_handle (os w (calls w))), snd (native (NtCreateEvent (UnicodeString ?create) root_dir) w))"
    using cooperative_ok [OF assms, of "calls w"] by (simp add: CreateEvent_eq)
  let ?w1 = "snd (native (NtCreateEvent (UnicodeString ?create) root_dir) w)"
  have "cooperative (snd (now ?w1))"
    using assms by (simp add: cooperative_def)
  then have l: "fst (RunTest_loop 0 iterations name [] (snd (now ?w1))) = None"
    by (rule RunTest_loop_cooperative)
  obtain a hs w3 where l3: "RunTest_loop 0 iterations name [] (snd (now ?w1)) = (a, hs, w3)"
    by (cases "RunTest_loop 0 iterations name [] (snd (now ?w1))")
  with l have "a = None" by simp
  then have "\<exists>t. fst (RunTest_body name iterations create_name root_dir w) = Inr t"
    using c l3 by (simp add: RunTest_body_eq)
  then show ?thesis
    by (cases "RunTest_body name iterations create_name root_dir w") (simp add: RunTest_def)
qed

lemma Test3_loop_cooperative:
  "cooperative w \<Longrightarrow> fst (Test3_loop i n it last_dir dirs w) = None"
proof (induction "nat (n - i)" arbitrary: i last_dir dirs w)
  case 0
  then have "\<not> i < n" by simp
  then show ?case by (subst Test3_loop.simps) simp
next
  case (Suc k)
  then have k: "k = nat (n - (i + 1))" and i: "i < n" by simp_all
  note IH = Suc.hyps(1) [OF k]
  let ?h = "r_handle (os w (calls w))"
  let ?w1 = "snd (native (NtCreateDirectoryObjectEx (UnicodeString (wide ''A'')) last_dir nullptr) w)"
  have c: "CreateDirectory (wide ''A'') last_dir nullptr w = (Inr ?h, ?w1)"
    using cooperative_ok [OF Suc.prems, of "calls w"] by (simp add: CreateDirectory_eq)
  have co1: "cooperative ?w1" using Suc.prems by (simp add: cooperative_def)
  show ?case
  proof (cases "i mod 500 = 0")
    case False
    show ?thesis
      using IH [OF co1, of ?h "dirs @ [?h]"] i c False by (subst Test3_loop.simps) simp
  next
    case True
    let ?nm = "r_name (os ?w1 (calls ?w1))"
    let ?w2 = "snd (native (NtQueryObject ?h) ?w1)"
    have g: "GetName ?h ?w1 = (Inr ?nm, ?w2)"
      using cooperative_ok [OF co1, of "calls ?w1"] by (simp add: GetName_eq)
    have co2: "cooperative ?w2" using co1 by (simp add: cooperative_def)
    obtain r3 w3 where t: "RunTest (?nm @ wide (bs ''X'')) it [] nullptr ?w2 = (r3, w3)"
      by (cases "RunTest (?nm @ wide (bs ''X'')) it [] nullptr ?w2")
    obtain result where r3: "r3 = Inr result"
      using RunTest_cooperative [OF co2, of "?nm @ wide (bs ''X'')" it "[]" nullptr] t by auto
    have "os (snd (RunTest (?nm @ wide (bs ''X'')) it [] nullptr ?w2)) = os ?w2"
      by (rule RunTest_os)
    then have "os w3 = os ?w2"
      by (simp only: t snd_conv)
    then have co3: "cooperative (printf (Int_and_time (i + 1) result) w3)"
      using co2 by (simp add: cooperative_def)
    show ?thesis
      using IH [OF co3, of ?h "dirs @ [?h]"] i c True g t r3
      by (subst Test3_loop.simps) simp
  qed
qed

lemma sampled_small: "0 < n \<Longrightarrow> n \<le> 500 \<Longrightarrow> sampled 0 n = [0]"
proof -
  assume n: "0 < n" "n \<le> 500"
  have "filter (\<lambda>k. k mod 500 = 0) [1..n - 1] = []"
    using n by (auto simp: filter_empty_conv dest: zdvd_imp_le)
  then show ?thesis
    using n by (simp add: sampled_def upto_rec1 [of 0 "n - 1"])
qed

text \<open>
  Claim C7. The lines scenario 3 prints are, in order, one for each loop index \<open>i\<close> below
  \<open>dir_count\<close> with \<open>i mod 500 = 0\<close> that the run reaches, and the first field of the line
  is \<open>i + 1\<close>; a run that ends normally prints all of them, and a run in which no native
  call fails ends normally. For \<open>dir_count = 10\<close> the only such index is \<open>0\<close>: the scenario
  prints exactly one line, whose first field is \<open>1\<close>, whatever \<open>iterations\<close> is.
\<close>

theorem Test3_sample_lines:
  "(\<exists>ts. length ts \<le> length (sampled 0 (GetArg args 1 16000)) \<and>
         (fst (Test3 args w) = None \<longrightarrow> length ts = length (sampled 0 (GetArg args 1 16000))) \<and>
         stdout_of (snd (Test3 args w)) =
           stdout_of w @ map2 (\<lambda>i t. Int_and_time (i + 1) t) (sampled 0 (GetArg args 1 16000)) ts) \<and>
   (cooperative w \<longrightarrow> fst (Test3 args w) = None) \<and>
   sampled 0 10 = [0] \<and>
   (GetArg args 1 16000 = 10 \<and> fst (Test3 args w) = None \<longrightarrow>
      (\<exists>t. stdout_of (snd (Test3 args w)) = stdout_of w @ [Int_and_time 1 t]))"
proof -
  let ?it = "GetArg args 0 1000" and ?n = "GetArg args 1 16000"
  obtain r w1 where o: "OpenDirectory (wide (bs ''BaseNamedObjects'')) nullptr w = (r, w1)"
    by (cases "OpenDirectory (wide (bs ''BaseNamedObjects'')) nullptr w")
  have w1: "stdout_of w1 = stdout_of w"
    using stdout_OpenDirectory [of "wide (bs ''BaseNamedObjects'')" nullptr w] o by simp
  have general: "\<exists>ts. length ts \<le> length (sampled 0 ?n) \<and>
         (fst (Test3 args w) = None \<longrightarrow> length ts = length (sampled 0 ?n)) \<and>
         stdout_of (snd (Test3 args w)) =
           stdout_of w @ map2 (\<lambda>i t. Int_and_time (i + 1) t) (sampled 0 ?n) ts"
  proof (cases r)
    case (Inl ex)
    then have "Test3 args w = (Some (Thrown ex), w1)"
      using o by (simp add: Test3_def Test3_body_def)
    then show ?thesis
      using w1 by (intro exI [of _ "[]"]) simp
  next
    case (Inr base_dir)
    obtain a dirs w2 where l: "Test3_loop 0 ?n ?it base_dir [] w1 = (a, dirs, w2)"
      by (cases "Test3_loop 0 ?n ?it base_dir [] w1")
    have t: "Test3 args w = (a, destroy_all (dirs @ [base_dir]) w2)"
      using o Inr l by (simp add: Test3_def Test3_body_def Let_def)
    show ?thesis
      using Test3_loop_stdout [of 0 ?n ?it base_dir "[]" w1] l
      by (simp add: t w1)
  qed
  have coop: "fst (Test3 args w) = None" if co: "cooperative w"
  proof -
    let ?h = "r_handle (os w (calls w))"
    let ?w1 = "snd (native (NtOpenDirectoryObject (UnicodeString (wide (bs ''BaseNamedObjects''))) nullptr) w)"
    have o': "OpenDirectory (wide (bs ''BaseNamedObjects'')) nullptr w = (Inr ?h, ?w1)"
      using cooperative_ok [OF co, of "calls w"] by (simp add: OpenDirectory_eq)
    have "cooperative ?w1" using co by (simp add: cooperative_def)
    then have "fst (Test3_loop 0 ?n ?it ?h [] ?w1) = None"
      by (rule Test3_loop_cooperative)
    then show ?thesis
      using o' by (cases "Test3_loop 0 ?n ?it ?h [] ?w1") (simp add: Test3_def Test3_body_def Let_def)
  qed
  have ten: "sampled 0 10 = [0]" by (rule sampled_small) simp_all
  have one: "\<exists>t. stdout_of (snd (Test3 args w)) = stdout_of w @ [Int_and_time 1 t]"
    if "GetArg args 1 16000 = 10" "fst (Test3 args w) = None"
  proof -
    obtain ts where ts: "length ts \<le> length (sampled 0 ?n) \<and>
         (fst (Test3 args w) = None \<longrightarrow> length ts = length (sampled 0 ?n)) \<and>
         stdout_of (snd (Test3 args w)) =
           stdout_of w @ map2 (\<lambda>i t. Int_and_time (i + 1) t) (sampled 0 ?n) ts"
      using general ..
    then have "length ts = 1" using that ten by simp
    then obtain t where "ts = [t]" by (cases ts) simp_all
    then show ?thesis using ts that ten by simp
  qed
  show ?thesis
    using general coop ten one by blast
qed


theorem Test3_sample_lines_witness:
  "GetArg [''2'', ''10''] 1 16000 = 10 \<and>
   fst (Test3 [''2'', ''10''] (sample_world (\<lambda>n. STATUS_SUCCESS))) = None \<and>
   stdout_of (snd (Test3 [''2'', ''10''] (sample_world (\<lambda>n. STATUS_SUCCESS)))) =
     [Int_and_time 1 (Finite (1 / 2))]"
  using Test3_sample_lines [of "[''2'', ''10'']" "sample_world (\<lambda>n. STATUS_SUCCESS)"]
    GetTime_at_sample_2 [of 0]
  by (simp add: Test3_def Test3_body_def Test3_loop.simps RunTest_loop.simps RunTest_def
      RunTest_body_def Timer_start_def GetTime_def CreateDirectory_def OpenDirectory_def CreateEvent_def GetName_def
      native_def now_def printf_def destroy_def destroy_all_def Check_def NT_ERROR_def
      UnicodeString_def GetArg_def atoi_def isspace_def isdigit_def INT_MAX_def INT_MIN_def
      nullptr_def sample_world_def STATUS_SUCCESS_def wide_def bs_def Let_def stdout_of_def)

section \<open>Properties of scenario 6\<close>

lemma Test6_insert_loop_stdout [simp]:
  "stdout_of (snd (snd (Test6_insert_loop names base_dir dirs w))) = stdout_of w"
proof (induction names arbitrary: dirs w)
  case Nil
  show ?case by simp
next
  case (Cons name names)
  show ?case
    using Cons [of "dirs @ [r_handle (os w (calls w))]"
                   "snd (native (NtCreateDirectoryObjectEx (UnicodeString name) base_dir nullptr) w)"]
    by (simp add: CreateDirectory_eq)
qed

text \<open>
  Claim C8. With \<open>collision_count = 0\<close> scenario 6 generates no name; its only native call
  creates the base directory, and when that call succeeds the two clock readings follow
  each other with no insertion between them and exactly one report is printed, the value
  of \<open>GetTime(1)\<close>. For every \<open>collision_count\<close> the scenario prints at most one report, and
  its value is the elapsed whole microseconds divided by the constant \<open>1\<close>, a finite number:
  no division by zero occurs.
\<close>

theorem Test6_without_collisions:
  "Test6_names 0 = [] \<and>
   (GetArg args 0 32000 = 0 \<longrightarrow>
      trace (snd (Test6 args w)) =
        trace w @
        (let r = os w (calls w);
             create = Call (NtCreateDirectoryObjectEx
                              (UnicodeString (wide (bs ''BaseNamedObjects'' @ bs ''A'')))
                              nullptr nullptr) r;
             release = (if r_handle r = nullptr then [] else [CloseHandle (r_handle r)])
         in if NT_ERROR (r_status r) then create # release
            else [create, Now (clock w (reads w)), Now (clock w (Suc (reads w))),
                  Printf (Time (GetTime_at \<lparr>m_start = clock w (reads w)\<rparr>
                                  (clock w (Suc (reads w))) 1))] @ release)) \<and>
   (\<exists>ps. stdout_of (snd (Test6 args w)) = stdout_of w @ ps \<and> length ps \<le> 1 \<and>
         (\<forall>p \<in> set ps. \<exists>us. p = Time (Finite (rat_of_int us))))"
proof -
  let ?name = "wide (bs ''BaseNamedObjects'' @ bs ''A'')"
  have names: "Test6_names 0 = []"
    by (simp add: Test6_names_def Test6_names_loop.simps)
  have zero: "trace (snd (Test6 args w)) =
        trace w @
        (let r = os w (calls w);
             create = Call (NtCreateDirectoryObjectEx (UnicodeString ?name) nullptr nullptr) r;
             release = (if r_handle r = nullptr then [] else [CloseHandle (r_handle r)])
         in if NT_ERROR (r_status r) then create # release
            else [create, Now (clock w (reads w)), Now (clock w (Suc (reads w))),
                  Printf (Time (GetTime_at \<lparr>m_start = clock w (reads w)\<rparr>
                                  (clock w (Suc (reads w))) 1))] @ release)"
    if "GetArg args 0 32000 = 0"
    using that
    by (simp add: Test6_def Test6_body_def names CreateDirectory_eq Timer_start_eq GetTime_eq
        Let_def destroy_trace)
  obtain r w1 where c: "CreateDirectory ?name nullptr nullptr w = (r, w1)"
    by (cases "CreateDirectory ?name nullptr nullptr w")
  have w1: "stdout_of w1 = stdout_of w"
    using stdout_CreateDirectory [of ?name nullptr nullptr w] c by simp
  have out: "\<exists>ps. stdout_of (snd (Test6 args w)) = stdout_of w @ ps \<and> length ps \<le> 1 \<and>
         (\<forall>p \<in> set ps. \<exists>us. p = Time (Finite (rat_of_int us)))"
  proof (cases r)
    case (Inl ex)
    then have "Test6 args w = (Some (Thrown ex), w1)"
      using c by (simp add: Test6_def Test6_body_def)
    then show ?thesis
      using w1 by (intro exI [of _ "[]"]) simp
  next
    case (Inr base_dir)
    let ?names = "Test6_names (GetArg args 0 32000)"
    obtain a dirs w3 where l: "Test6_insert_loop ?names base_dir [] (snd (now w1)) = (a, dirs, w3)"
      by (cases "Test6_insert_loop ?names base_dir [] (snd (now w1))")
    have w3: "stdout_of w3 = stdout_of w"
      using Test6_insert_loop_stdout [of ?names base_dir "[]" "snd (now w1)"] l w1 by simp
    show ?thesis
    proof (cases a)
      case (Some ab)
      then have "Test6 args w = (Some ab, destroy_all (dirs @ [base_dir]) w3)"
        using c Inr l by (simp add: Test6_def Test6_body_def Timer_start_eq Let_def)
      then show ?thesis
        using w3 by (intro exI [of _ "[]"]) simp
    next
      case None
      let ?t = "GetTime_at \<lparr>m_start = clock w1 (reads w1)\<rparr> (clock w3 (reads w3)) 1"
      have "Test6 args w = (None, destroy_all (dirs @ [base_dir]) (printf (Time ?t) (snd (now w3))))"
        using c Inr l None
        by (simp add: Test6_def Test6_body_def Timer_start_eq GetTime_eq Let_def)
      moreover have "\<exists>us. ?t = Finite (rat_of_int us)"
        by (rule GetTime_at_whole)
      ultimately show ?thesis
        using w3 by (intro exI [of _ "[Time ?t]"]) auto
    qed
  qed
  show ?thesis
    using names zero out by blast
qed

theorem Test6_without_collisions_witness:
  "GetArg [''0''] 0 32000 = 0 \<and>
   trace (snd (Test6 [''0''] (sample_world (\<lambda>n. STATUS_SUCCESS)))) =
     [Call (NtCreateDirectoryObjectEx (wide (bs ''BaseNamedObjects'' @ bs ''A'')) nullptr nullptr)
        \<lparr>r_status = 0, r_handle = 4, r_name = wide (bs ''BaseNamedObjects'' @ bs ''A'')\<rparr>,
      Now 0, Now 1500, Printf (Time (Finite 1)), CloseHandle 4]"
  using Test6_without_collisions [of "[''0'']" "sample_world (\<lambda>n. STATUS_SUCCESS)"]
    GetTime_at_sample_1 [of 0]
  by (simp add: NT_ERROR_def
      UnicodeString_def GetArg_def atoi_def isspace_def isdigit_def INT_MAX_def INT_MIN_def
      nullptr_def sample_world_def STATUS_SUCCESS_def wide_def bs_def Let_def)


section \<open>Properties of the entry point\<close>

lemma hex_digits: "map hex_digit [0..<16] = ''0123456789ABCDEF''"
  by code_simp

lemma hex_digit_in: "d < 16 \<Longrightarrow> hex_digit d \<in> set ''0123456789ABCDEF''"
proof -
  assume "d < 16"
  then have "d \<in> set [0..<16]" by simp
  then have "hex_digit d \<in> set (map hex_digit [0..<16])" by (simp only: set_map) (rule imageI)
  then show ?thesis by (simp only: hex_digits)
qed

lemma nibble_less: "unat (x AND (15 :: 32 word)) < 16"
proof -
  have "unat (x AND 15) \<le> unat (15 :: 32 word)"
    by (rule word_and_le1 [THEN word_le_nat_alt [THEN iffD1]])
  then show ?thesis by simp
qed

lemma hex8_length: "length (hex8 s) = 8"
  by (simp add: hex8_def)

lemma hex8_digits: "set (hex8 s) \<subseteq> set ''0123456789ABCDEF''"
proof
  fix c assume "c \<in> set (hex8 s)"
  then have "c \<in> (\<lambda>k. hex_digit (unat (drop_bit (4 * k) s AND 15))) ` set [7, 6, 5, 4, 3, 2, 1, 0 :: nat]"
    by (simp only: hex8_def set_map)
  then obtain k where "c = hex_digit (unat (drop_bit (4 * k) s AND 15))"
    by (rule imageE)
  then show "c \<in> set ''0123456789ABCDEF''"
    using hex_digit_in [OF nibble_less] by simp
qed

lemma switch_test_None: "(switch_test n = None) = (n < 1 \<or> 8 < n)"
  by (auto simp: switch_test_def)

text \<open>
  Claim C4. The exit status is \<open>1\<close> when the scenario argument is missing, and \<open>1\<close> when
  it is unknown (\<open>atoi\<close> of it is not one of \<open>1, ..., 8\<close>); it is \<open>0\<close> when the scenario
  ends normally; and when an \<open>NtException\<close> leaves the scenario, \<open>main\<close> prints
  \<open>Error in program: \<close> followed by the status as eight hexadecimal digits and the exit
  status is \<open>0\<close> as well. No run of \<open>main\<close> yields a status other than \<open>0\<close> or \<open>1\<close>
  (\<open>None\<close>: the scenario ran into undefined behaviour, and C++ promises no status).
\<close>

theorem main_exit_status:
  "(length argv < 2 \<longrightarrow> fst (main argv w) = Some 1) \<and>
   (2 \<le> length argv \<and> (atoi (argv ! 1) < 1 \<or> 8 < atoi (argv ! 1)) \<longrightarrow>
      fst (main argv w) = Some 1) \<and>
   (2 \<le> length argv \<and> switch_test (atoi (argv ! 1)) = Some test \<and>
    test (drop 2 argv) w = (None, w1) \<longrightarrow>
      main argv w = (Some 0, w1)) \<and>
   (2 \<le> length argv \<and> switch_test (atoi (argv ! 1)) = Some test \<and>
    test (drop 2 argv) w = (Some (Thrown ex), w1) \<longrightarrow>
      main argv w =
        (Some 0, printf (Text (''Error in program: '' @ hex8 (m_status ex) @ ''\<newline>'')) w1)) \<and>
   length (hex8 (m_status ex)) = 8 \<and>
   set (hex8 (m_status ex)) \<subseteq> set ''0123456789ABCDEF'' \<and>
   (switch_test n = None) = (n < 1 \<or> 8 < n) \<and>
   fst (main argv w) \<in> {None, Some 0, Some 1}"
proof -
  have missing: "fst (main argv w) = Some 1" if "length argv < 2"
    using that by (simp add: main_def)
  have unknown: "fst (main argv w) = Some 1"
    if "2 \<le> length argv \<and> (atoi (argv ! 1) < 1 \<or> 8 < atoi (argv ! 1))"
  proof -
    have "switch_test (atoi (argv ! 1)) = None"
      using that by (simp only: switch_test_None)
    then show ?thesis
      using that by (simp add: main_def Let_def)
  qed
  have normal: "main argv w = (Some 0, w1)"
    if "2 \<le> length argv \<and> switch_test (atoi (argv ! 1)) = Some test \<and>
        test (drop 2 argv) w = (None, w1)"
    using that by (simp add: main_def Let_def)
  have thrown: "main argv w =
        (Some 0, printf (Text (''Error in program: '' @ hex8 (m_status ex) @ ''\<newline>'')) w1)"
    if "2 \<le> length argv \<and> switch_test (atoi (argv ! 1)) = Some test \<and>
        test (drop 2 argv) w = (Some (Thrown ex), w1)"
    using that by (simp add: main_def Let_def)
  have range: "fst (main argv w) \<in> {None, Some 0, Some 1}"
    by (simp add: main_def Let_def split: option.splits prod.splits abort.splits)
  show ?thesis
    using missing unknown normal thrown range hex8_length [of "m_status ex"]
      hex8_digits [of "m_status ex"] switch_test_None [of n]
    by (intro conjI impI) assumption+
qed

lemmas run_defs = main_def switch_test_def PrintHelp_def Test6_def Test6_body_def
  Test6_names_def Test6_names_loop.simps MakeCollisionName_def MakeNullString_def
  MakeNullString_loop.simps Timer_start_def GetTime_def CreateDirectory_def native_def now_def
  printf_def destroy_def destroy_all_def Check_def NT_ERROR_def UnicodeString_def GetArg_def
  atoi_def isspace_def isdigit_def INT_MAX_def INT_MIN_def nullptr_def sample_world_def
  STATUS_SUCCESS_def STATUS_OBJECT_NAME_COLLISION_def wide_def bs_def Let_def

theorem main_exit_status_witness:
  "fst (main [''ObjectNameLookup''] (sample_world (\<lambda>n. STATUS_SUCCESS))) = Some 1 \<and>
   fst (main [''ObjectNameLookup'', ''9''] (sample_world (\<lambda>n. STATUS_SUCCESS))) = Some 1 \<and>
   fst (main [''ObjectNameLookup'', ''six''] (sample_world (\<lambda>n. STATUS_SUCCESS))) = Some 1 \<and>
   fst (main [''ObjectNameLookup'', ''6'', ''2''] (sample_world (\<lambda>n. STATUS_SUCCESS))) = Some 0 \<and>
   fst (main [''ObjectNameLookup'', ''6'', ''2'']
          (sample_world (\<lambda>n. STATUS_OBJECT_NAME_COLLISION))) = Some 0 \<and>
   stdout_of (snd (main [''ObjectNameLookup'', ''6'', ''2'']
          (sample_world (\<lambda>n. STATUS_OBJECT_NAME_COLLISION)))) =
     [Text ''Error in program: C0000035\<newline>'']"
proof -
  have missing: "fst (main [''ObjectNameLookup''] (sample_world (\<lambda>n. STATUS_SUCCESS))) = Some 1"
    using main_exit_status [of "[''ObjectNameLookup'']" "sample_world (\<lambda>n. STATUS_SUCCESS)"]
    by simp
  have hex: "hex8 0xC0000035 = ''C0000035''"
    by code_simp
  have nine: "atoi ''9'' = 9" and six: "atoi ''six'' = 0"
    by (simp_all add: atoi_def isspace_def isdigit_def INT_MAX_def INT_MIN_def)
  have unknown9:
    "fst (main [''ObjectNameLookup'', ''9''] (sample_world (\<lambda>n. STATUS_SUCCESS))) = Some 1"
    using main_exit_status [of "[''ObjectNameLookup'', ''9'']" "sample_world (\<lambda>n. STATUS_SUCCESS)"]
    by (simp add: nine)
  have unknown6:
    "fst (main [''ObjectNameLookup'', ''six''] (sample_world (\<lambda>n. STATUS_SUCCESS))) = Some 1"
    using main_exit_status [of "[''ObjectNameLookup'', ''six'']" "sample_world (\<lambda>n. STATUS_SUCCESS)"]
    by (simp add: six)
  have runs:
    "fst (main [''ObjectNameLookup'', ''6'', ''2''] (sample_world (\<lambda>n. STATUS_SUCCESS))) = Some 0 \<and>
     fst (main [''ObjectNameLookup'', ''6'', ''2'']
          (sample_world (\<lambda>n. STATUS_OBJECT_NAME_COLLISION))) = Some 0 \<and>
     stdout_of (snd (main [''ObjectNameLookup'', ''6'', ''2'']
          (sample_world (\<lambda>n. STATUS_OBJECT_NAME_COLLISION)))) =
       [Text ''Error in program: C0000035\<newline>'']"
    by (simp add: run_defs stdout_of_def hex)
  show ?thesis
    using missing unknown9 unknown6 runs by simp
qed


section \<open>Properties of the lifetime of handles\<close>

lemma acquired_append [simp]: "acquired K (xs @ ys) = acquired K xs @ acquired K ys"
  by (induction K xs rule: acquired.induct) simp_all

lemma releases_append [simp]: "releases (xs @ ys) = releases xs @ releases ys"
  by (induction xs rule: releases.induct) simp_all

lemma releases_closing [simp]: "releases (closing hs) = filter (\<lambda>h. h \<noteq> nullptr) hs"
  unfolding closing_def by (induction hs) simp_all

lemma acquired_closing [simp]: "acquired K (closing hs) = []"
  unfolding closing_def by (induction hs) simp_all

lemma destroy_all_closing: "trace (destroy_all hs w) = trace w @ closing hs"
  by (simp add: destroy_all_trace closing_def)

lemma destroy_closing: "trace (destroy h w) = trace w @ closing [h]"
  by (simp add: destroy_trace closing_def)

lemma filled_append [simp]: "filled (xs @ ys) = (filled xs \<and> filled ys)"
  by (induction xs rule: filled.induct) simp_all

lemma releases_calls [simp]: "releases (map (Call c) rs) = []"
  by (induction rs) simp_all

lemma acquired_calls:
  "K c \<Longrightarrow> list_all (\<lambda>r. \<not> NT_ERROR (r_status r)) rs \<Longrightarrow>
   acquired K (map (Call c) rs) = map r_handle rs"
  by (induction rs) simp_all

lemma acquired_calls_none: "\<not> K c \<Longrightarrow> acquired K (map (Call c) rs) = []"
  by (induction rs) simp_all

lemma scoped_Nil [simp]: "scoped T []"
  by (rule scoped.held) simp_all

subsection \<open>What a scoped trace releases\<close>

text \<open>
  In a scoped trace in which every call that was to fill a \<open>ScopedHandle\<close> succeeded, the
  handles released are the measurement handles acquired in it, each as often as it was
  acquired.
\<close>

lemma scoped_releases:
  assumes "scoped T es" and "filled es"
  shows "count_list (releases es) h =
           count_list (filter (\<lambda>h. h \<noteq> nullptr) (acquired (measuring T) es)) h"
  using assms
proof (induction rule: scoped.induct)
  case (held es)
  then show ?case by simp
next
  case (temporary c r)
  then show ?case by (simp add: measuring_def)
next
  case (measured r rs created root_dir start opened stop)
  have "acquired (measuring T) (map (Call (NtOpenEvent opened)) rs) = map r_handle rs"
    using measured(2) by (intro acquired_calls) (simp_all add: measuring_def)
  moreover have "measuring T (NtCreateEvent created root_dir)"
    by (simp add: measuring_def)
  ultimately show ?case
    using measured(1) by simp
next
  case (interrupted r rs r'' created root_dir start opened)
  have "acquired (measuring T) (map (Call (NtOpenEvent opened)) rs) = map r_handle rs"
    using interrupted(2) by (intro acquired_calls) (simp_all add: measuring_def)
  moreover have "measuring T (NtCreateEvent created root_dir)"
    by (simp add: measuring_def)
  ultimately show ?case
    using interrupted(1,3) by simp
next
  case (failed r c unset)
  then show ?case by simp
next
  case (seq xs ys)
  then show ?case by simp
qed

subsection \<open>RunTest\<close>

lemma RunTest_loop_shape:
  "\<exists>rs. list_all (\<lambda>r. \<not> NT_ERROR (r_status r)) rs \<and>
        fst (snd (RunTest_loop i iterations name handles w)) = handles @ map r_handle rs \<and>
        (case fst (RunTest_loop i iterations name handles w) of
           None \<Rightarrow>
             trace (snd (snd (RunTest_loop i iterations name handles w))) =
               trace w @ map (Call (NtOpenEvent (UnicodeString name))) rs
         | Some ex \<Rightarrow>
             (\<exists>r. NT_ERROR (r_status r) \<and>
                  trace (snd (snd (RunTest_loop i iterations name handles w))) =
                    trace w @ map (Call (NtOpenEvent (UnicodeString name))) rs @
                    [Call (NtOpenEvent (UnicodeString name)) r]))"
proof (induction "nat (iterations - i)" arbitrary: i handles w)
  case 0
  then show ?case by (intro exI [of _ "[]"]) (simp add: RunTest_loop_done)
next
  case (Suc k)
  then have k: "k = nat (iterations - (i + 1))" and i: "i < iterations" by simp_all
  let ?r = "os w (calls w)"
  let ?oe = "NtOpenEvent (UnicodeString name)"
  let ?w1 = "snd (native ?oe w)"
  show ?case
  proof (cases "NT_ERROR (r_status ?r)")
    case True
    then have "RunTest_loop i iterations name handles w =
                 (Some (NtException (r_status ?r)), handles, ?w1)"
      using i by (subst RunTest_loop_cases) simp
    then show ?thesis
      using True by (intro exI [of _ "[]"]) auto
  next
    case False
    let ?next = "RunTest_loop (i + 1) iterations name (handles @ [r_handle ?r]) ?w1"
    have eq: "RunTest_loop i iterations name handles w = ?next"
      using i False by (simp add: RunTest_loop_step)
    obtain rs where rs: "list_all (\<lambda>r. \<not> NT_ERROR (r_status r)) rs \<and>
        fst (snd ?next) = (handles @ [r_handle ?r]) @ map r_handle rs \<and>
        (case fst ?next of
           None \<Rightarrow> trace (snd (snd ?next)) = trace ?w1 @ map (Call ?oe) rs
         | Some ex \<Rightarrow>
             (\<exists>r. NT_ERROR (r_status r) \<and>
                  trace (snd (snd ?next)) = trace ?w1 @ map (Call ?oe) rs @ [Call ?oe r]))"
      using Suc.hyps(1) [OF k, of "handles @ [r_handle ?r]" ?w1] ..
    show ?thesis
      using rs False
      by (intro exI [of _ "?r # rs"]) (auto simp: eq split: option.splits)
  qed
qed

lemma RunTest_scope_exit:
  "trace (snd (RunTest name iterations create_name root_dir w)) =
     scope_exit (snd (RunTest_body name iterations create_name root_dir w))"
  by (cases "RunTest_body name iterations create_name root_dir w")
     (simp add: RunTest_def scope_exit_def destroy_all_closing)

lemma RunTest_trace:
  "\<exists>es. trace (snd (RunTest name iterations create_name root_dir w)) = trace w @ es \<and>
        scoped T es \<and> acquired (kept T) es = []"
proof -
  let ?create = "if create_name = [] then name else create_name"
  let ?r = "os w (calls w)"
  let ?ce = "NtCreateEvent (UnicodeString ?create) root_dir"
  let ?oe = "NtOpenEvent (UnicodeString name)"
  let ?w1 = "snd (native ?ce w)"
  let ?w2 = "snd (now ?w1)"
  let ?body = "RunTest_body name iterations create_name root_dir w"
  have tr: "trace (snd (RunTest name iterations create_name root_dir w)) =
              trace (snd (snd ?body)) @ closing (fst (snd ?body))"
    by (simp add: RunTest_scope_exit scope_exit_def)
  have kc: "\<not> kept T ?ce" and ko: "\<not> kept T ?oe" by (simp_all add: kept_def)
  show ?thesis
  proof (cases "NT_ERROR (r_status ?r)")
    case True
    let ?es = "Call ?ce ?r # closing [r_handle ?r]"
    have "?body = (Inl (NtException (r_status ?r)), [], destroy (r_handle ?r) ?w1)"
      using True by (simp add: RunTest_body_eq CreateEvent_eq)
    then have "trace (snd (RunTest name iterations create_name root_dir w)) = trace w @ ?es"
      by (simp add: tr destroy_closing closing_def)
    moreover have "scoped T ?es" using True by (intro scoped.failed) simp_all
    moreover have "acquired (kept T) ?es = []" using True by simp
    ultimately show ?thesis by blast
  next
    case False
    let ?loop = "RunTest_loop 0 iterations name [] ?w2"
    have c: "CreateEvent ?create root_dir w = (Inr (r_handle ?r), ?w1)"
      using False by (simp add: CreateEvent_eq)
    obtain rs where ok: "list_all (\<lambda>r. \<not> NT_ERROR (r_status r)) rs"
      and hs: "fst (snd ?loop) = [] @ map r_handle rs"
      and sh: "case fst ?loop of
           None \<Rightarrow> trace (snd (snd ?loop)) = trace ?w2 @ map (Call ?oe) rs
         | Some ex \<Rightarrow>
             (\<exists>r. NT_ERROR (r_status r) \<and>
                  trace (snd (snd ?loop)) = trace ?w2 @ map (Call ?oe) rs @ [Call ?oe r])"
      using RunTest_loop_shape [of 0 iterations name "[]" ?w2] by blast
    obtain a handles w3 where l: "?loop = (a, handles, w3)" by (cases ?loop)
    have handles: "handles = map r_handle rs" using hs l by simp
    have ka: "acquired (kept T) (map (Call ?oe) rs) = []"
      using ko by (rule acquired_calls_none)
    show ?thesis
    proof (cases a)
      case None
      let ?es = "Call ?ce ?r # Now (clock ?w1 (reads ?w1)) # map (Call ?oe) rs @
                 Now (clock w3 (reads w3)) # closing (map r_handle rs @ [r_handle ?r])"
      have "trace w3 = trace ?w2 @ map (Call ?oe) rs" using sh l None by simp
      moreover have "?body = (Inr (GetTime_at \<lparr>m_start = clock ?w1 (reads ?w1)\<rparr>
                                  (clock w3 (reads w3)) iterations),
                              handles @ [r_handle ?r], snd (now w3))"
        using c l None by (simp add: RunTest_body_eq)
      ultimately have "trace (snd (RunTest name iterations create_name root_dir w)) = trace w @ ?es"
        by (simp add: tr handles)
      moreover have "scoped T ?es" using False ok by (rule scoped.measured)
      moreover have "acquired (kept T) ?es = []" using kc ka by simp
      ultimately show ?thesis by blast
    next
      case (Some ex)
      obtain r'' where bad: "NT_ERROR (r_status r'')"
        and t3: "trace w3 = trace ?w2 @ map (Call ?oe) rs @ [Call ?oe r'']"
        using sh l Some by auto
      let ?es = "Call ?ce ?r # Now (clock ?w1 (reads ?w1)) # map (Call ?oe) rs @
                 Call ?oe r'' # closing (map r_handle rs @ [r_handle ?r])"
      have "?body = (Inl ex, handles @ [r_handle ?r], w3)"
        using c l Some by (simp add: RunTest_body_eq)
      then have "trace (snd (RunTest name iterations create_name root_dir w)) = trace w @ ?es"
        using t3 by (simp add: tr handles)
      moreover have "scoped T ?es" using False ok bad by (rule scoped.interrupted)
      moreover have "acquired (kept T) ?es = []" using kc ko ka by simp
      ultimately show ?thesis by blast
    qed
  qed
qed

subsection \<open>Runs\<close>

lemma run_refl [simp]: "run T w w []"
  unfolding run_def by (intro exI [of _ "[]"]) simp

lemma run_trans: "run T w w1 hs1 \<Longrightarrow> run T w1 w2 hs2 \<Longrightarrow> run T w w2 (hs1 @ hs2)"
proof -
  assume "run T w w1 hs1" and "run T w1 w2 hs2"
  then obtain es1 es2 where
    1: "trace w1 = trace w @ es1" "scoped T es1" "acquired (kept T) es1 = hs1" and
    2: "trace w2 = trace w1 @ es2" "scoped T es2" "acquired (kept T) es2 = hs2"
    unfolding run_def by blast
  have "scoped T (es1 @ es2)" using 1(2) 2(2) by (rule scoped.seq)
  then show ?thesis
    unfolding run_def using 1 2 by (intro exI [of _ "es1 @ es2"]) simp
qed

lemma run_trans0: "run T w w1 [] \<Longrightarrow> run T w1 w2 hs \<Longrightarrow> run T w w2 hs"
  using run_trans [of T w w1 "[]" w2 hs] by simp

lemma run_trans1: "run T w w1 hs \<Longrightarrow> run T w1 w2 [] \<Longrightarrow> run T w w2 hs"
  using run_trans [of T w w1 hs w2 "[]"] by simp

lemma run_held:
  "trace w' = trace w @ es \<Longrightarrow> releases es = [] \<Longrightarrow> acquired (measuring T) es = [] \<Longrightarrow>
   run T w w' (acquired (kept T) es)"
  unfolding run_def by (intro exI [of _ es]) (simp add: scoped.held)

lemma run_now [simp]: "run T w (snd (now w)) []"
  using run_held [of "snd (now w)" w "[Now (clock w (reads w))]" T] by simp

lemma run_printf [simp]: "run T w (printf p w) []"
  using run_held [of "printf p w" w "[Printf p]" T] by simp

lemma run_native:
  "\<not> is_event c \<Longrightarrow> \<not> temporaries T c \<Longrightarrow>
   run T w (snd (native c w))
     (if kept T c \<and> \<not> NT_ERROR (r_status (os w (calls w))) then [r_handle (os w (calls w))] else [])"
  using run_held [of "snd (native c w)" w "[Call c (os w (calls w))]" T]
  by (auto simp: measuring_def split: if_splits)

lemma run_native_unset:
  "NT_ERROR (r_status (os w (calls w))) \<Longrightarrow> fills c \<Longrightarrow>
   run T w (destroy (r_handle (os w (calls w))) (snd (native c w))) []"
  unfolding run_def
  by (intro exI [of _ "Call c (os w (calls w)) # closing [r_handle (os w (calls w))]"])
     (simp add: destroy_closing scoped.failed)

lemma run_native_temporary:
  assumes "temporaries T c" and "fills c"
  shows "run T w (destroy (r_handle (os w (calls w))) (snd (native c w))) []"
proof (cases "NT_ERROR (r_status (os w (calls w)))")
  case True
  then show ?thesis using assms(2) by (rule run_native_unset)
next
  case False
  have "\<not> kept T c" using assms(1) by (simp add: kept_def temporaries_def)
  then show ?thesis
    unfolding run_def using assms(1) False
    by (intro exI [of _ "Call c (os w (calls w)) # closing [r_handle (os w (calls w))]"])
       (simp add: destroy_closing scoped.temporary)
qed

lemma CreateDirectory_run:
  assumes "\<not> T (NtCreateDirectoryObjectEx (UnicodeString name) root_dir shadow_dir)"
    and "CreateDirectory name root_dir shadow_dir w = (res, w')"
  shows "run T w w' (case res of Inl ex \<Rightarrow> [] | Inr h \<Rightarrow> [h])"
proof (cases "NT_ERROR (r_status (os w (calls w)))")
  case True
  then show ?thesis
    using assms(2) run_native_unset [OF True, of "NtCreateDirectoryObjectEx (UnicodeString name) root_dir shadow_dir" T]
    by (auto simp: CreateDirectory_eq)
next
  case False
  then show ?thesis
    using assms run_native [of "NtCreateDirectoryObjectEx (UnicodeString name) root_dir shadow_dir" T w]
    by (auto simp: CreateDirectory_eq kept_def temporaries_def)
qed

lemma OpenDirectory_run:
  assumes "\<not> T (NtOpenDirectoryObject (UnicodeString name) root_dir)"
    and "OpenDirectory name root_dir w = (res, w')"
  shows "run T w w' (case res of Inl ex \<Rightarrow> [] | Inr h \<Rightarrow> [h])"
proof (cases "NT_ERROR (r_status (os w (calls w)))")
  case True
  then show ?thesis
    using assms(2) run_native_unset [OF True, of "NtOpenDirectoryObject (UnicodeString name) root_dir" T]
    by (auto simp: OpenDirectory_eq)
next
  case False
  then show ?thesis
    using assms run_native [of "NtOpenDirectoryObject (UnicodeString name) root_dir" T w]
    by (auto simp: OpenDirectory_eq kept_def temporaries_def)
qed

lemma CreateLink_run:
  assumes "\<not> T (NtCreateSymbolicLinkObject (UnicodeString name) root_dir (UnicodeString target))"
    and "CreateLink name root_dir target w = (res, w')"
  shows "run T w w' (case res of Inl ex \<Rightarrow> [] | Inr h \<Rightarrow> [h])"
proof (cases "NT_ERROR (r_status (os w (calls w)))")
  case True
  then show ?thesis
    using assms(2) run_native_unset [OF True, of
        "NtCreateSymbolicLinkObject (UnicodeString name) root_dir (UnicodeString target)" T]
    by (auto simp: CreateLink_eq)
next
  case False
  then show ?thesis
    using assms run_native [of
        "NtCreateSymbolicLinkObject (UnicodeString name) root_dir (UnicodeString target)" T w]
    by (auto simp: CreateLink_eq kept_def temporaries_def)
qed

lemma GetName_run: "GetName handle w = (res, w') \<Longrightarrow> run T w w' []"
  using run_native [of "NtQueryObject handle" T w]
  by (auto simp: GetName_eq kept_def temporaries_def split: if_splits)

lemma RunTest_run:
  "RunTest name iterations create_name root_dir w = (res, w') \<Longrightarrow> run T w w' []"
  using RunTest_trace [of name iterations create_name root_dir w T]
  by (auto simp: run_def)


subsection \<open>The loops of the scenarios\<close>

lemma Test2_loop_run: "run T w (snd (Test2_loop path it w)) []"
proof (induction "32001 - length path" arbitrary: path w rule: less_induct)
  case less
  show ?case
  proof (cases "length path \<le> 32000")
    case False
    then show ?thesis by (subst Test2_loop.simps) simp
  next
    case p: True
    let ?name = "wide (bs ''BaseNamedObjects'' @ bs ''A'') @ path"
    obtain r w1 where t: "RunTest ?name it [] nullptr w = (r, w1)"
      by (cases "RunTest ?name it [] nullptr w")
    have r1: "run T w w1 []" by (rule RunTest_run [OF t])
    show ?thesis
    proof (cases r)
      case (Inl ex)
      then show ?thesis
        using p t r1 by (subst Test2_loop.simps) simp
    next
      case (Inr result)
      let ?w2 = "printf (Size_and_time (length path) result) w1"
      have "32001 - length (path @ replicate 500 (0x41 :: wchar_t)) < 32001 - length path"
        using p by simp
      then have "run T ?w2 (snd (Test2_loop (path @ replicate 500 0x41) it ?w2)) []"
        by (rule less.hyps)
      moreover have "run T w ?w2 []" using r1 run_printf by (rule run_trans0)
      ultimately have "run T w (snd (Test2_loop (path @ replicate 500 0x41) it ?w2)) []"
        by (rule run_trans0 [rotated])
      then show ?thesis
        using p t Inr by (subst Test2_loop.simps) simp
    qed
  qed
qed

lemma Test3_loop_run:
  "\<exists>hs. run (\<lambda>c. False) w (snd (snd (Test3_loop i n it last_dir dirs w))) hs \<and>
        fst (snd (Test3_loop i n it last_dir dirs w)) = dirs @ hs"
proof (induction "nat (n - i)" arbitrary: i last_dir dirs w)
  case 0
  then have "\<not> i < n" by simp
  then show ?case by (subst (1 2) Test3_loop.simps) simp
next
  case (Suc k)
  then have k: "k = nat (n - (i + 1))" and i: "i < n" by simp_all
  note IH = Suc.hyps(1) [OF k]
  obtain r1 w1 where c: "CreateDirectory (wide ''A'') last_dir nullptr w = (r1, w1)"
    by (cases "CreateDirectory (wide ''A'') last_dir nullptr w")
  have run1: "run (\<lambda>c. False) w w1 (case r1 of Inl ex \<Rightarrow> [] | Inr h \<Rightarrow> [h])"
    by (rule CreateDirectory_run [OF _ c]) simp
  show ?case
  proof (cases r1)
    case (Inl ex)
    have "Test3_loop i n it last_dir dirs w = (Some (Thrown ex), dirs, w1)"
      using i c Inl by (subst Test3_loop.simps) simp
    then show ?thesis
      using run1 Inl by (intro exI [of _ "[]"]) simp
  next
    case (Inr h)
    have run1: "run (\<lambda>c. False) w w1 [h]" using run1 Inr by simp
    have rest: "\<exists>hs. run (\<lambda>c. False) w (snd (snd (Test3_loop (i + 1) n it h (dirs @ [h]) w2))) hs \<and>
          fst (snd (Test3_loop (i + 1) n it h (dirs @ [h]) w2)) = dirs @ hs"
      if "run (\<lambda>c. False) w1 w2 []" for w2
    proof -
      obtain hs where hs: "run (\<lambda>c. False) w2 (snd (snd (Test3_loop (i + 1) n it h (dirs @ [h]) w2))) hs \<and>
          fst (snd (Test3_loop (i + 1) n it h (dirs @ [h]) w2)) = (dirs @ [h]) @ hs"
        using IH [where w = w2 and last_dir = h and dirs = "dirs @ [h]"] ..
      have "run (\<lambda>c. False) w w2 [h]" using run1 that by (rule run_trans1)
      moreover have "run (\<lambda>c. False) w2 (snd (snd (Test3_loop (i + 1) n it h (dirs @ [h]) w2))) hs"
        using hs by (rule conjunct1)
      ultimately have "run (\<lambda>c. False) w (snd (snd (Test3_loop (i + 1) n it h (dirs @ [h]) w2))) ([h] @ hs)"
        by (rule run_trans)
      then show ?thesis
        using hs by (intro exI [of _ "[h] @ hs"]) simp
    qed
    show ?thesis
    proof (cases "i mod 500 = 0")
      case False
      have eq: "Test3_loop i n it last_dir dirs w = Test3_loop (i + 1) n it h (dirs @ [h]) w1"
        using i c Inr False by (subst Test3_loop.simps) simp
      show ?thesis
        using rest [of w1] by (simp only: eq run_refl)
    next
      case True
      obtain r2 w2 where g: "GetName h w1 = (r2, w2)"
        by (cases "GetName h w1")
      have run2: "run (\<lambda>c. False) w1 w2 []" by (rule GetName_run [OF g])
      show ?thesis
      proof (cases r2)
        case (Inl ex)
        have "Test3_loop i n it last_dir dirs w = (Some (Thrown ex), dirs @ [h], w2)"
          using i c Inr True g Inl by (subst Test3_loop.simps) simp
        moreover have "run (\<lambda>c. False) w w2 [h]" using run1 run2 by (rule run_trans1)
        ultimately show ?thesis
          by (intro exI [of _ "[h]"]) simp
      next
        case name: (Inr last_dir_name)
        obtain r3 w3 where t: "RunTest (last_dir_name @ wide (bs ''X'')) it [] nullptr w2 = (r3, w3)"
          by (cases "RunTest (last_dir_name @ wide (bs ''X'')) it [] nullptr w2")
        have run3: "run (\<lambda>c. False) w1 w3 []"
          using run2 RunTest_run [OF t] by (rule run_trans0)
        show ?thesis
        proof (cases r3)
          case (Inl ex)
          have "Test3_loop i n it last_dir dirs w = (Some (Thrown ex), dirs @ [h], w3)"
            using i c Inr True g name t Inl by (subst Test3_loop.simps) simp
          moreover have "run (\<lambda>c. False) w w3 [h]" using run1 run3 by (rule run_trans1)
          ultimately show ?thesis
            by (intro exI [of _ "[h]"]) simp
        next
          case result: (Inr result)
          let ?w4 = "printf (Int_and_time (i + 1) result) w3"
          have eq: "Test3_loop i n it last_dir dirs w = Test3_loop (i + 1) n it h (dirs @ [h]) ?w4"
            using i c Inr True g name t result by (subst Test3_loop.simps) simp
          have "run (\<lambda>c. False) w1 ?w4 []" using run3 run_printf by (rule run_trans0)
          then show ?thesis
            using rest [of ?w4] by (simp only: eq)
        qed
      qed
    qed
  qed
qed


lemma Test4_dirs_loop_run:
  "\<exists>hs. run (\<lambda>c. False) w (snd (snd (snd (Test4_dirs_loop i n last_dir dirs w)))) hs \<and>
        fst (snd (snd (Test4_dirs_loop i n last_dir dirs w))) = dirs @ hs"
proof (induction "nat (n - i)" arbitrary: i last_dir dirs w)
  case 0
  then have "\<not> i < n" by simp
  then show ?case by (subst (1 2) Test4_dirs_loop.simps) simp
next
  case (Suc k)
  then have k: "k = nat (n - (i + 1))" and i: "i < n" by simp_all
  note IH = Suc.hyps(1) [OF k]
  obtain r1 w1 where c: "CreateDirectory (wide ''A'') last_dir nullptr w = (r1, w1)"
    by (cases "CreateDirectory (wide ''A'') last_dir nullptr w")
  have run1: "run (\<lambda>c. False) w w1 (case r1 of Inl ex \<Rightarrow> [] | Inr h \<Rightarrow> [h])"
    by (rule CreateDirectory_run [OF _ c]) simp
  show ?case
  proof (cases r1)
    case (Inl ex)
    have "Test4_dirs_loop i n last_dir dirs w = (Some (Thrown ex), last_dir, dirs, w1)"
      using i c Inl by (subst Test4_dirs_loop.simps) simp
    then show ?thesis
      using run1 Inl by (intro exI [of _ "[]"]) simp
  next
    case (Inr h)
    have eq: "Test4_dirs_loop i n last_dir dirs w = Test4_dirs_loop (i + 1) n h (dirs @ [h]) w1"
      using i c Inr by (subst Test4_dirs_loop.simps) simp
    obtain hs where hs: "run (\<lambda>c. False) w1 (snd (snd (snd (Test4_dirs_loop (i + 1) n h (dirs @ [h]) w1)))) hs \<and>
        fst (snd (snd (Test4_dirs_loop (i + 1) n h (dirs @ [h]) w1))) = (dirs @ [h]) @ hs"
      using IH [where w = w1 and last_dir = h and dirs = "dirs @ [h]"] ..
    have "run (\<lambda>c. False) w w1 [h]" using run1 Inr by simp
    moreover have "run (\<lambda>c. False) w1 (snd (snd (snd (Test4_dirs_loop (i + 1) n h (dirs @ [h]) w1)))) hs"
      using hs by (rule conjunct1)
    ultimately have "run (\<lambda>c. False) w (snd (snd (snd (Test4_dirs_loop (i + 1) n h (dirs @ [h]) w1)))) ([h] @ hs)"
      by (rule run_trans)
    then show ?thesis
      using hs by (intro exI [of _ "[h] @ hs"]) (simp add: eq)
  qed
qed

lemma links_loop_run:
  "\<exists>hs. run (\<lambda>c. False) w (snd (snd (links_loop i n dir last_dir_name links w))) hs \<and>
        fst (snd (links_loop i n dir last_dir_name links w)) = links @ hs"
proof (induction "nat (n - i)" arbitrary: i links w)
  case 0
  then have "\<not> i < n" by simp
  then show ?case by (subst (1 2) links_loop.simps) simp
next
  case (Suc k)
  then have k: "k = nat (n - (i + 1))" and i: "i < n" by simp_all
  note IH = Suc.hyps(1) [OF k]
  let ?target = "last_dir_name @ wide (bs []) @ IntToString (i + 1)"
  obtain r1 w1 where c: "CreateLink (IntToString i) dir ?target w = (r1, w1)"
    by (cases "CreateLink (IntToString i) dir ?target w")
  have run1: "run (\<lambda>c. False) w w1 (case r1 of Inl ex \<Rightarrow> [] | Inr h \<Rightarrow> [h])"
    by (rule CreateLink_run [OF _ c]) simp
  show ?case
  proof (cases r1)
    case (Inl ex)
    have "links_loop i n dir last_dir_name links w = (Some (Thrown ex), links, w1)"
      using i c Inl by (subst links_loop.simps) simp
    then show ?thesis
      using run1 Inl by (intro exI [of _ "[]"]) simp
  next
    case (Inr h)
    have eq: "links_loop i n dir last_dir_name links w =
                links_loop (i + 1) n dir last_dir_name (links @ [h]) w1"
      using i c Inr by (subst links_loop.simps) simp
    obtain hs where hs: "run (\<lambda>c. False) w1 (snd (snd (links_loop (i + 1) n dir last_dir_name (links @ [h]) w1))) hs \<and>
        fst (snd (links_loop (i + 1) n dir last_dir_name (links @ [h]) w1)) = (links @ [h]) @ hs"
      using IH [where w = w1 and links = "links @ [h]"] ..
    have "run (\<lambda>c. False) w w1 [h]" using run1 Inr by simp
    moreover have "run (\<lambda>c. False) w1 (snd (snd (links_loop (i + 1) n dir last_dir_name (links @ [h]) w1))) hs"
      using hs by (rule conjunct1)
    ultimately have "run (\<lambda>c. False) w (snd (snd (links_loop (i + 1) n dir last_dir_name (links @ [h]) w1))) ([h] @ hs)"
      by (rule run_trans)
    then show ?thesis
      using hs by (intro exI [of _ "[h] @ hs"]) (simp add: eq)
  qed
qed

lemma Test5_timing_loop_cases:
  "Test5_timing_loop j iterations base_dir_name base_dir w =
     (if j < iterations then
        (if NT_ERROR (r_status (os w (calls w)))
         then (Some (NtException (r_status (os w (calls w)))),
               destroy (r_handle (os w (calls w)))
                 (snd (native (NtOpenDirectoryObject (UnicodeString base_dir_name) base_dir) w)))
         else Test5_timing_loop (j + 1) iterations base_dir_name base_dir
                (destroy (r_handle (os w (calls w)))
                   (snd (native (NtOpenDirectoryObject (UnicodeString base_dir_name) base_dir) w))))
      else (None, w))"
  by (subst Test5_timing_loop.simps) (simp add: OpenDirectory_eq)

lemma Test5_timing_loop_run:
  "run is_open_directory w (snd (Test5_timing_loop j iterations base_dir_name base_dir w)) []"
proof (induction "nat (iterations - j)" arbitrary: j w)
  case 0
  then have "\<not> j < iterations" by simp
  then show ?case by (subst Test5_timing_loop_cases) simp
next
  case (Suc k)
  then have k: "k = nat (iterations - (j + 1))" and j: "j < iterations" by simp_all
  let ?w1 = "destroy (r_handle (os w (calls w)))
               (snd (native (NtOpenDirectoryObject (UnicodeString base_dir_name) base_dir) w))"
  have run1: "run is_open_directory w ?w1 []"
    by (rule run_native_temporary) (simp_all add: temporaries_def)
  have "run is_open_directory ?w1
          (snd (Test5_timing_loop (j + 1) iterations base_dir_name base_dir ?w1)) []"
    by (rule Suc.hyps(1) [OF k])
  with run1 have "run is_open_directory w
          (snd (Test5_timing_loop (j + 1) iterations base_dir_name base_dir ?w1)) []"
    by (rule run_trans0)
  then show ?case
    using j run1 by (subst Test5_timing_loop_cases) simp
qed

lemma Test5_loop_run:
  "\<exists>hs. run is_open_directory w (snd (snd (Test5_loop i n it base_dir_name base_dir dirs w))) hs \<and>
        fst (snd (Test5_loop i n it base_dir_name base_dir dirs w)) = dirs @ hs"
proof (induction "nat (n - i)" arbitrary: i dirs w)
  case 0
  then have "\<not> i < n" by simp
  then show ?case by (subst (1 2) Test5_loop.simps) simp
next
  case (Suc k)
  then have k: "k = nat (n - (i + 1))" and i: "i < n" by simp_all
  note IH = Suc.hyps(1) [OF k]
  obtain r1 w1 where c: "CreateDirectory (MakeCollisionName (n - i)) base_dir nullptr w = (r1, w1)"
    by (cases "CreateDirectory (MakeCollisionName (n - i)) base_dir nullptr w")
  have run1: "run is_open_directory w w1 (case r1 of Inl ex \<Rightarrow> [] | Inr h \<Rightarrow> [h])"
    by (rule CreateDirectory_run [OF _ c]) simp
  show ?case
  proof (cases r1)
    case (Inl ex)
    have "Test5_loop i n it base_dir_name base_dir dirs w = (Some (Thrown ex), dirs, w1)"
      using i c Inl by (subst Test5_loop.simps) simp
    then show ?thesis
      using run1 Inl by (intro exI [of _ "[]"]) simp
  next
    case (Inr h)
    have run1: "run is_open_directory w w1 [h]" using run1 Inr by simp
    have rest: "\<exists>hs. run is_open_directory w
            (snd (snd (Test5_loop (i + 1) n it base_dir_name base_dir (dirs @ [h]) w2))) hs \<and>
          fst (snd (Test5_loop (i + 1) n it base_dir_name base_dir (dirs @ [h]) w2)) = dirs @ hs"
      if "run is_open_directory w1 w2 []" for w2
    proof -
      obtain hs where hs: "run is_open_directory w2
            (snd (snd (Test5_loop (i + 1) n it base_dir_name base_dir (dirs @ [h]) w2))) hs \<and>
          fst (snd (Test5_loop (i + 1) n it base_dir_name base_dir (dirs @ [h]) w2)) =
            (dirs @ [h]) @ hs"
        using IH [where w = w2 and dirs = "dirs @ [h]"] ..
      have "run is_open_directory w w2 [h]" using run1 that by (rule run_trans1)
      moreover have "run is_open_directory w2
            (snd (snd (Test5_loop (i + 1) n it base_dir_name base_dir (dirs @ [h]) w2))) hs"
        using hs by (rule conjunct1)
      ultimately have "run is_open_directory w
            (snd (snd (Test5_loop (i + 1) n it base_dir_name base_dir (dirs @ [h]) w2))) ([h] @ hs)"
        by (rule run_trans)
      then show ?thesis
        using hs by (intro exI [of _ "[h] @ hs"]) simp
    qed
    show ?thesis
    proof (cases "i mod 500 = 0")
      case False
      have eq: "Test5_loop i n it base_dir_name base_dir dirs w =
                  Test5_loop (i + 1) n it base_dir_name base_dir (dirs @ [h]) w1"
        using i c Inr False by (subst Test5_loop.simps) simp
      show ?thesis
        using rest [of w1] by (simp only: eq run_refl)
    next
      case True
      let ?w2 = "snd (now w1)"
      let ?timer = "\<lparr>m_start = clock w1 (reads w1)\<rparr>"
      obtain a w3 where t: "Test5_timing_loop 0 it base_dir_name base_dir ?w2 = (a, w3)"
        by (cases "Test5_timing_loop 0 it base_dir_name base_dir ?w2")
      have "run is_open_directory ?w2 w3 []"
        using Test5_timing_loop_run [of ?w2 0 it base_dir_name base_dir] t by simp
      with run_now have run3: "run is_open_directory w1 w3 []" by (rule run_trans0)
      show ?thesis
      proof (cases a)
        case (Some ex)
        have "Test5_loop i n it base_dir_name base_dir dirs w = (Some (Thrown ex), dirs @ [h], w3)"
          using i c Inr True t Some by (subst Test5_loop.simps) (simp add: Timer_start_eq)
        moreover have "run is_open_directory w w3 [h]" using run1 run3 by (rule run_trans1)
        ultimately show ?thesis
          by (intro exI [of _ "[h]"]) simp
      next
        case None
        let ?t = "GetTime_at ?timer (clock w3 (reads w3)) it"
        let ?w5 = "printf (Int_and_time i ?t) (snd (now w3))"
        have eq: "Test5_loop i n it base_dir_name base_dir dirs w =
                    Test5_loop (i + 1) n it base_dir_name base_dir (dirs @ [h]) ?w5"
          using i c Inr True t None
          by (subst Test5_loop.simps) (simp add: Timer_start_eq GetTime_eq)
        have "run is_open_directory w3 (snd (now w3)) []" by simp
        with run3 have "run is_open_directory w1 (snd (now w3)) []" by (rule run_trans0)
        then have "run is_open_directory w1 ?w5 []" using run_printf by (rule run_trans0)
        then show ?thesis
          using rest [of ?w5] by (simp only: eq)
      qed
    qed
  qed
qed

lemma Test6_insert_loop_run:
  "\<exists>hs. run (\<lambda>c. False) w (snd (snd (Test6_insert_loop names base_dir dirs w))) hs \<and>
        fst (snd (Test6_insert_loop names base_dir dirs w)) = dirs @ hs"
proof (induction names arbitrary: dirs w)
  case Nil
  show ?case by simp
next
  case (Cons name names)
  obtain r1 w1 where c: "CreateDirectory name base_dir nullptr w = (r1, w1)"
    by (cases "CreateDirectory name base_dir nullptr w")
  have run1: "run (\<lambda>c. False) w w1 (case r1 of Inl ex \<Rightarrow> [] | Inr h \<Rightarrow> [h])"
    by (rule CreateDirectory_run [OF _ c]) simp
  show ?case
  proof (cases r1)
    case (Inl ex)
    then show ?thesis
      using run1 c by (intro exI [of _ "[]"]) simp
  next
    case (Inr h)
    obtain hs where hs: "run (\<lambda>c. False) w1 (snd (snd (Test6_insert_loop names base_dir (dirs @ [h]) w1))) hs \<and>
        fst (snd (Test6_insert_loop names base_dir (dirs @ [h]) w1)) = (dirs @ [h]) @ hs"
      using Cons [of w1 "dirs @ [h]"] ..
    have "run (\<lambda>c. False) w w1 [h]" using run1 Inr by simp
    moreover have "run (\<lambda>c. False) w1 (snd (snd (Test6_insert_loop names base_dir (dirs @ [h]) w1))) hs"
      using hs by (rule conjunct1)
    ultimately have "run (\<lambda>c. False) w (snd (snd (Test6_insert_loop names base_dir (dirs @ [h]) w1))) ([h] @ hs)"
      by (rule run_trans)
    then show ?thesis
      using hs c Inr by (intro exI [of _ "[h] @ hs"]) simp
  qed
qed

lemma Test7_loop_run: "run T w (snd (Test7_loop i n it dir_name shadow_dir w)) []"
proof (induction "nat (n - i)" arbitrary: i w rule: less_induct)
  case less
  show ?case
  proof (cases "i < n")
    case False
    then show ?thesis by (subst Test7_loop.simps) simp
  next
    case i: True
    let ?name = "append_A_loop 0 i dir_name @ wide (bs ''X'')"
    obtain r w1 where t: "RunTest ?name it (wide ''X'') shadow_dir w = (r, w1)"
      by (cases "RunTest ?name it (wide ''X'') shadow_dir w")
    have r1: "run T w w1 []" by (rule RunTest_run [OF t])
    show ?thesis
    proof (cases r)
      case (Inl ex)
      then show ?thesis
        using i t r1 by (subst Test7_loop.simps) (simp add: Let_def)
    next
      case (Inr result)
      let ?w2 = "printf (Int_and_time i result) w1"
      have r2: "run T w ?w2 []" using r1 run_printf by (rule run_trans0)
      show ?thesis
      proof (cases "INT_MAX < i + 500")
        case True
        then show ?thesis
          using i t Inr r2 by (subst Test7_loop.simps) (simp add: Let_def)
      next
        case False
        have "nat (n - (i + 500)) < nat (n - i)" using i by simp
        then have "run T ?w2 (snd (Test7_loop (i + 500) n it dir_name shadow_dir ?w2)) []"
          by (rule less.hyps)
        with r2 have "run T w (snd (Test7_loop (i + 500) n it dir_name shadow_dir ?w2)) []"
          by (rule run_trans0)
        then show ?thesis
          using i t Inr False by (subst Test7_loop.simps) (simp add: Let_def)
      qed
    qed
  qed
qed

lemma Test8_dirs_loop_run:
  "\<exists>hs. run (\<lambda>c. False) w (snd (snd (Test8_dirs_loop i n shadow_dir dirs w))) hs \<and>
        fst (snd (Test8_dirs_loop i n shadow_dir dirs w)) = dirs @ hs"
proof (induction "nat (n - i)" arbitrary: i dirs w)
  case 0
  then have "\<not> i < n - 1" by simp
  then show ?case by (subst (1 2) Test8_dirs_loop.simps) simp
next
  case (Suc k)
  then have k: "k = nat (n - (i + 1))" by simp
  note IH = Suc.hyps(1) [OF k]
  show ?case
  proof (cases "n \<noteq> INT_MIN \<and> i < n - 1")
    case False
    then show ?thesis by (subst (1 2) Test8_dirs_loop.simps) auto
  next
    case True
    obtain r1 w1 where c: "CreateDirectory (MakeCollisionName (n - i)) shadow_dir nullptr w = (r1, w1)"
      by (cases "CreateDirectory (MakeCollisionName (n - i)) shadow_dir nullptr w")
    have run1: "run (\<lambda>c. False) w w1 (case r1 of Inl ex \<Rightarrow> [] | Inr h \<Rightarrow> [h])"
      by (rule CreateDirectory_run [OF _ c]) simp
    show ?thesis
    proof (cases r1)
      case (Inl ex)
      have "Test8_dirs_loop i n shadow_dir dirs w = (Some (Thrown ex), dirs, w1)"
        using True c Inl by (subst Test8_dirs_loop.simps) simp
      then show ?thesis
        using run1 Inl by (intro exI [of _ "[]"]) simp
    next
      case (Inr h)
      have eq: "Test8_dirs_loop i n shadow_dir dirs w =
                  Test8_dirs_loop (i + 1) n shadow_dir (dirs @ [h]) w1"
        using True c Inr by (subst Test8_dirs_loop.simps) simp
      obtain hs where hs: "run (\<lambda>c. False) w1 (snd (snd (Test8_dirs_loop (i + 1) n shadow_dir (dirs @ [h]) w1))) hs \<and>
          fst (snd (Test8_dirs_loop (i + 1) n shadow_dir (dirs @ [h]) w1)) = (dirs @ [h]) @ hs"
        using IH [where w = w1 and dirs = "dirs @ [h]"] ..
      have "run (\<lambda>c. False) w w1 [h]" using run1 Inr by simp
      moreover have "run (\<lambda>c. False) w1 (snd (snd (Test8_dirs_loop (i + 1) n shadow_dir (dirs @ [h]) w1))) hs"
        using hs by (rule conjunct1)
      ultimately have "run (\<lambda>c. False) w (snd (snd (Test8_dirs_loop (i + 1) n shadow_dir (dirs @ [h]) w1))) ([h] @ hs)"
        by (rule run_trans)
      then show ?thesis
        using hs by (intro exI [of _ "[h] @ hs"]) (simp add: eq)
    qed
  qed
qed


subsection \<open>The scenarios\<close>

lemma retainedI:
  "run T w w' hs \<Longrightarrow> (\<And>h. count_list owned h = count_list hs h) \<Longrightarrow> retained T w (owned, w')"
  unfolding retained_def run_def by auto

lemma Test1_retained: "retained T w ([], snd (Test1 args w))"
proof -
  let ?name = "wide (bs ''BaseNamedObjects'' @ bs ''{2F2C4C1D-FD52-47CA-BF97-CA72B6CA55F8}'')"
  obtain r w1 where t: "RunTest ?name (GetArg args 0 1000) [] nullptr w = (r, w1)"
    by (cases "RunTest ?name (GetArg args 0 1000) [] nullptr w")
  have r1: "run T w w1 []" by (rule RunTest_run [OF t])
  have "run T w (snd (Test1 args w)) []"
  proof (cases r)
    case (Inl ex)
    then show ?thesis using t r1 by (simp add: Test1_def)
  next
    case (Inr test1)
    have "run T w (printf (Us_for_iterations test1 (GetArg args 0 1000)) w1) []"
      using r1 run_printf by (rule run_trans0)
    then show ?thesis using t Inr by (simp add: Test1_def)
  qed
  then show ?thesis by (rule retainedI) simp
qed

lemma Test2_retained: "retained T w ([], snd (Test2 args w))"
proof -
  have "run T w (snd (Test2 args w)) []"
    using Test2_loop_run [of T w "[]" "GetArg args 0 1000"] by (simp add: Test2_def)
  then show ?thesis by (rule retainedI) simp
qed

lemma Test3_retained: "retained (\<lambda>c. False) w (snd (Test3_body args w))"
proof -
  let ?it = "GetArg args 0 1000" and ?n = "GetArg args 1 16000"
  obtain r w1 where o: "OpenDirectory (wide (bs ''BaseNamedObjects'')) nullptr w = (r, w1)"
    by (cases "OpenDirectory (wide (bs ''BaseNamedObjects'')) nullptr w")
  have run1: "run (\<lambda>c. False) w w1 (case r of Inl ex \<Rightarrow> [] | Inr h \<Rightarrow> [h])"
    by (rule OpenDirectory_run [OF _ o]) simp
  show ?thesis
  proof (cases r)
    case (Inl ex)
    then have "snd (Test3_body args w) = ([], w1)"
      using o by (simp add: Test3_body_def)
    moreover have "retained (\<lambda>c. False) w ([], w1)"
      using run1 Inl by (intro retainedI [of _ _ _ "[]"]) simp_all
    ultimately show ?thesis by simp
  next
    case (Inr base_dir)
    obtain a dirs w2 where l: "Test3_loop 0 ?n ?it base_dir [] w1 = (a, dirs, w2)"
      by (cases "Test3_loop 0 ?n ?it base_dir [] w1")
    obtain hs where hs: "run (\<lambda>c. False) w1 (snd (snd (Test3_loop 0 ?n ?it base_dir [] w1))) hs \<and>
        fst (snd (Test3_loop 0 ?n ?it base_dir [] w1)) = [] @ hs"
      using Test3_loop_run [of w1 0 ?n ?it base_dir "[]"] ..
    have "run (\<lambda>c. False) w w1 [base_dir]" using run1 Inr by simp
    moreover have "run (\<lambda>c. False) w1 w2 hs" using hs l by simp
    ultimately have "run (\<lambda>c. False) w w2 ([base_dir] @ hs)" by (rule run_trans)
    moreover have "dirs = hs" using hs l by simp
    ultimately have "retained (\<lambda>c. False) w (dirs @ [base_dir], w2)"
      by (intro retainedI [of _ _ _ "[base_dir] @ hs"]) simp_all
    moreover have "snd (Test3_body args w) = (dirs @ [base_dir], w2)"
      using o Inr l by (simp add: Test3_body_def Let_def)
    ultimately show ?thesis by simp
  qed
qed

lemma Test5_retained: "retained is_open_directory w (snd (Test5_body args w))"
proof -
  let ?it = "GetArg args 0 1000" and ?n = "GetArg args 1 32000"
  let ?name = "wide (bs ''BaseNamedObjects'' @ bs ''A'')"
  obtain r w1 where o: "CreateDirectory ?name nullptr nullptr w = (r, w1)"
    by (cases "CreateDirectory ?name nullptr nullptr w")
  have run1: "run is_open_directory w w1 (case r of Inl ex \<Rightarrow> [] | Inr h \<Rightarrow> [h])"
    by (rule CreateDirectory_run [OF _ o]) simp
  show ?thesis
  proof (cases r)
    case (Inl ex)
    then have "snd (Test5_body args w) = ([], w1)"
      using o by (simp add: Test5_body_def)
    moreover have "retained is_open_directory w ([], w1)"
      using run1 Inl by (intro retainedI [of _ _ _ "[]"]) simp_all
    ultimately show ?thesis by simp
  next
    case (Inr base_dir)
    obtain a dirs w2 where l: "Test5_loop 0 ?n ?it (MakeCollisionName ?n) base_dir [] w1 = (a, dirs, w2)"
      by (cases "Test5_loop 0 ?n ?it (MakeCollisionName ?n) base_dir [] w1")
    obtain hs where hs: "run is_open_directory w1
          (snd (snd (Test5_loop 0 ?n ?it (MakeCollisionName ?n) base_dir [] w1))) hs \<and>
        fst (snd (Test5_loop 0 ?n ?it (MakeCollisionName ?n) base_dir [] w1)) = [] @ hs"
      using Test5_loop_run [of w1 0 ?n ?it "MakeCollisionName ?n" base_dir "[]"] ..
    have "run is_open_directory w w1 [base_dir]" using run1 Inr by simp
    moreover have "run is_open_directory w1 w2 hs" using hs l by simp
    ultimately have "run is_open_directory w w2 ([base_dir] @ hs)" by (rule run_trans)
    moreover have "dirs = hs" using hs l by simp
    ultimately have "retained is_open_directory w (dirs @ [base_dir], w2)"
      by (intro retainedI [of _ _ _ "[base_dir] @ hs"]) simp_all
    moreover have "snd (Test5_body args w) = (dirs @ [base_dir], w2)"
      using o Inr l by (simp add: Test5_body_def Let_def)
    ultimately show ?thesis by simp
  qed
qed

lemma Test6_retained: "retained (\<lambda>c. False) w (snd (Test6_body args w))"
proof -
  let ?names = "Test6_names (GetArg args 0 32000)"
  let ?name = "wide (bs ''BaseNamedObjects'' @ bs ''A'')"
  obtain r w1 where o: "CreateDirectory ?name nullptr nullptr w = (r, w1)"
    by (cases "CreateDirectory ?name nullptr nullptr w")
  have run1: "run (\<lambda>c. False) w w1 (case r of Inl ex \<Rightarrow> [] | Inr h \<Rightarrow> [h])"
    by (rule CreateDirectory_run [OF _ o]) simp
  show ?thesis
  proof (cases r)
    case (Inl ex)
    then have "snd (Test6_body args w) = ([], w1)"
      using o by (simp add: Test6_body_def)
    moreover have "retained (\<lambda>c. False) w ([], w1)"
      using run1 Inl by (intro retainedI [of _ _ _ "[]"]) simp_all
    ultimately show ?thesis by simp
  next
    case (Inr base_dir)
    let ?w2 = "snd (now w1)"
    obtain a dirs w3 where l: "Test6_insert_loop ?names base_dir [] ?w2 = (a, dirs, w3)"
      by (cases "Test6_insert_loop ?names base_dir [] ?w2")
    obtain hs where hs: "run (\<lambda>c. False) ?w2 (snd (snd (Test6_insert_loop ?names base_dir [] ?w2))) hs \<and>
        fst (snd (Test6_insert_loop ?names base_dir [] ?w2)) = [] @ hs"
      using Test6_insert_loop_run [of ?w2 ?names base_dir "[]"] ..
    have "run (\<lambda>c. False) w w1 [base_dir]" using run1 Inr by simp
    then have "run (\<lambda>c. False) w ?w2 [base_dir]" using run_now by (rule run_trans1)
    moreover have "run (\<lambda>c. False) ?w2 w3 hs" using hs l by simp
    ultimately have run3: "run (\<lambda>c. False) w w3 ([base_dir] @ hs)" by (rule run_trans)
    have dirs: "dirs = hs" using hs l by simp
    show ?thesis
    proof (cases a)
      case (Some ab)
      have "retained (\<lambda>c. False) w (dirs @ [base_dir], w3)"
        using run3 dirs by (intro retainedI [of _ _ _ "[base_dir] @ hs"]) simp_all
      moreover have "snd (Test6_body args w) = (dirs @ [base_dir], w3)"
        using o Inr l Some by (simp add: Test6_body_def Timer_start_eq Let_def)
      ultimately show ?thesis by simp
    next
      case None
      let ?t = "GetTime_at \<lparr>m_start = clock w1 (reads w1)\<rparr> (clock w3 (reads w3)) 1"
      let ?w5 = "printf (Time ?t) (snd (now w3))"
      have "run (\<lambda>c. False) w (snd (now w3)) ([base_dir] @ hs)"
        using run3 run_now by (rule run_trans1)
      then have "run (\<lambda>c. False) w ?w5 ([base_dir] @ hs)"
        using run_printf by (rule run_trans1)
      then have "retained (\<lambda>c. False) w (dirs @ [base_dir], ?w5)"
        using dirs by (intro retainedI [of _ _ _ "[base_dir] @ hs"]) simp_all
      moreover have "snd (Test6_body args w) = (dirs @ [base_dir], ?w5)"
        using o Inr l None by (simp add: Test6_body_def Timer_start_eq GetTime_eq Let_def)
      ultimately show ?thesis by simp
    qed
  qed
qed

lemma Test7_retained: "retained (\<lambda>c. False) w (snd (Test7_body args w))"
proof -
  let ?it = "GetArg args 0 1000" and ?n = "GetArg args 1 16000"
  let ?name = "wide (bs ''BaseNamedObjects'' @ bs ''A'')"
  obtain r w1 where o: "CreateDirectory ?name nullptr nullptr w = (r, w1)"
    by (cases "CreateDirectory ?name nullptr nullptr w")
  have run1: "run (\<lambda>c. False) w w1 (case r of Inl ex \<Rightarrow> [] | Inr h \<Rightarrow> [h])"
    by (rule CreateDirectory_run [OF _ o]) simp
  show ?thesis
  proof (cases r)
    case (Inl ex)
    then have "snd (Test7_body args w) = ([], w1)"
      using o by (simp add: Test7_body_def)
    moreover have "retained (\<lambda>c. False) w ([], w1)"
      using run1 Inl by (intro retainedI [of _ _ _ "[]"]) simp_all
    ultimately show ?thesis by simp
  next
    case (Inr shadow_dir)
    have run1: "run (\<lambda>c. False) w w1 [shadow_dir]" using run1 Inr by simp
    obtain r2 w2 where o2: "CreateDirectory (wide ''A'') shadow_dir shadow_dir w1 = (r2, w2)"
      by (cases "CreateDirectory (wide ''A'') shadow_dir shadow_dir w1")
    have run2: "run (\<lambda>c. False) w1 w2 (case r2 of Inl ex \<Rightarrow> [] | Inr h \<Rightarrow> [h])"
      by (rule CreateDirectory_run [OF _ o2]) simp
    show ?thesis
    proof (cases r2)
      case (Inl ex)
      have "run (\<lambda>c. False) w1 w2 []" using run2 Inl by simp
      with run1 have "run (\<lambda>c. False) w w2 [shadow_dir]" by (rule run_trans1)
      then have "retained (\<lambda>c. False) w ([shadow_dir], w2)"
        by (rule retainedI) simp
      moreover have "snd (Test7_body args w) = ([shadow_dir], w2)"
        using o \<open>r = Inr shadow_dir\<close> o2 Inl by (simp add: Test7_body_def Let_def)
      ultimately show ?thesis by simp
    next
      case target: (Inr target_dir)
      obtain a w3 where l: "Test7_loop 0 ?n ?it ?name shadow_dir w2 = (a, w3)"
        by (cases "Test7_loop 0 ?n ?it ?name shadow_dir w2")
      have "run (\<lambda>c. False) w1 w2 [target_dir]" using run2 target by simp
      with run1 have "run (\<lambda>c. False) w w2 ([shadow_dir] @ [target_dir])" by (rule run_trans)
      moreover have "run (\<lambda>c. False) w2 w3 []"
        using Test7_loop_run [of "\<lambda>c. False" w2 0 ?n ?it ?name shadow_dir] l by simp
      ultimately have "run (\<lambda>c. False) w w3 ([shadow_dir] @ [target_dir])" by (rule run_trans1)
      then have "retained (\<lambda>c. False) w ([target_dir, shadow_dir], w3)"
        by (rule retainedI) simp
      moreover have "snd (Test7_body args w) = ([target_dir, shadow_dir], w3)"
        using o \<open>r = Inr shadow_dir\<close> o2 target l by (simp add: Test7_body_def Let_def)
      ultimately show ?thesis by simp
    qed
  qed
qed


lemma Test4_retained: "retained (\<lambda>c. False) w (snd (Test4_body args w))"
proof -
  let ?it = "GetArg args 0 10" and ?n = "GetArg args 1 16000" and ?m = "GetArg args 2 63"
  obtain r w1 where o: "OpenDirectory (wide (bs ''BaseNamedObjects'')) nullptr w = (r, w1)"
    by (cases "OpenDirectory (wide (bs ''BaseNamedObjects'')) nullptr w")
  have run1: "run (\<lambda>c. False) w w1 (case r of Inl ex \<Rightarrow> [] | Inr h \<Rightarrow> [h])"
    by (rule OpenDirectory_run [OF _ o]) simp
  show ?thesis
  proof (cases r)
    case (Inl ex)
    then have "snd (Test4_body args w) = ([], w1)"
      using o by (simp add: Test4_body_def)
    moreover have "retained (\<lambda>c. False) w ([], w1)"
      using run1 Inl by (intro retainedI [of _ _ _ "[]"]) simp_all
    ultimately show ?thesis by simp
  next
    case base: (Inr base_dir)
    have run1: "run (\<lambda>c. False) w w1 [base_dir]" using run1 base by simp
    obtain a last_dir dirs w2 where l: "Test4_dirs_loop 0 ?n base_dir [] w1 = (a, last_dir, dirs, w2)"
      by (cases "Test4_dirs_loop 0 ?n base_dir [] w1")
    obtain hs where hs: "run (\<lambda>c. False) w1 (snd (snd (snd (Test4_dirs_loop 0 ?n base_dir [] w1)))) hs \<and>
        fst (snd (snd (Test4_dirs_loop 0 ?n base_dir [] w1))) = [] @ hs"
      using Test4_dirs_loop_run [of w1 0 ?n base_dir "[]"] ..
    have dirs: "dirs = hs" using hs l by simp
    have "run (\<lambda>c. False) w1 w2 hs" using hs l by simp
    with run1 have run2: "run (\<lambda>c. False) w w2 ([base_dir] @ dirs)"
      unfolding dirs by (rule run_trans)
    have keep2: "retained (\<lambda>c. False) w (dirs @ [base_dir], w')"
      if "run (\<lambda>c. False) w2 w' []" for w'
    proof -
      have "run (\<lambda>c. False) w w' ([base_dir] @ dirs)" using run2 that by (rule run_trans1)
      then show ?thesis by (rule retainedI) simp
    qed
    show ?thesis
    proof (cases a)
      case (Some ab)
      have "snd (Test4_body args w) = (dirs @ [base_dir], w2)"
        using o base l Some by (simp add: Test4_body_def Let_def)
      then show ?thesis using keep2 [of w2] by simp
    next
      case None
      obtain r3 w3 where g: "GetName last_dir w2 = (r3, w3)"
        by (cases "GetName last_dir w2")
      have run3: "run (\<lambda>c. False) w2 w3 []" by (rule GetName_run [OF g])
      show ?thesis
      proof (cases r3)
        case (Inl ex)
        have "snd (Test4_body args w) = (dirs @ [base_dir], w3)"
          using o base l None g Inl by (simp add: Test4_body_def Let_def)
        then show ?thesis using keep2 [OF run3] by simp
      next
        case name: (Inr last_dir_name)
        obtain a4 links w4 where ll: "links_loop 0 ?m last_dir last_dir_name [] w3 = (a4, links, w4)"
          by (cases "links_loop 0 ?m last_dir last_dir_name [] w3")
        obtain ls where ls: "run (\<lambda>c. False) w3 (snd (snd (links_loop 0 ?m last_dir last_dir_name [] w3))) ls \<and>
            fst (snd (links_loop 0 ?m last_dir last_dir_name [] w3)) = [] @ ls"
          using links_loop_run [of w3 0 ?m last_dir last_dir_name "[]"] ..
        have links: "links = ls" using ls ll by simp
        have "run (\<lambda>c. False) w3 w4 links" using ls ll by simp
        with run3 have "run (\<lambda>c. False) w2 w4 links" by (rule run_trans0)
        with run2 have run4: "run (\<lambda>c. False) w w4 (([base_dir] @ dirs) @ links)" by (rule run_trans)
        have keep4: "retained (\<lambda>c. False) w (links @ dirs @ [base_dir], w')"
          if "run (\<lambda>c. False) w4 w' []" for w'
        proof -
          have "run (\<lambda>c. False) w w' (([base_dir] @ dirs) @ links)"
            using run4 that by (rule run_trans1)
          then show ?thesis by (rule retainedI) simp
        qed
        show ?thesis
        proof (cases a4)
          case (Some ab)
          have "snd (Test4_body args w) = (links @ dirs @ [base_dir], w4)"
            using o base l None g name ll Some by (simp add: Test4_body_def Let_def)
          then show ?thesis using keep4 [of w4] by simp
        next
          case no_abort: None
          show ?thesis
          proof (cases links)
            case Nil
            have "snd (Test4_body args w) = (dirs @ [base_dir], w4)"
              using o base l None g name ll no_abort Nil by (simp add: Test4_body_def Let_def)
            then show ?thesis using keep4 [of w4] Nil by simp
          next
            case (Cons front rest)
            obtain r5 w5 where g5: "GetName front w4 = (r5, w5)"
              by (cases "GetName front w4")
            have run5: "run (\<lambda>c. False) w4 w5 []" by (rule GetName_run [OF g5])
            show ?thesis
            proof (cases r5)
              case (Inl ex)
              have "snd (Test4_body args w) = (links @ dirs @ [base_dir], w5)"
                using o base l None g name ll no_abort Cons g5 Inl
                by (simp add: Test4_body_def Let_def)
              then show ?thesis using keep4 [OF run5] by simp
            next
              case first: (Inr first_name)
              obtain r6 w6 where t: "RunTest first_name ?it (IntToString ?m) last_dir w5 = (r6, w6)"
                by (cases "RunTest first_name ?it (IntToString ?m) last_dir w5")
              have run6: "run (\<lambda>c. False) w4 w6 []"
                using run5 RunTest_run [OF t] by (rule run_trans0)
              show ?thesis
              proof (cases r6)
                case (Inl ex)
                have "snd (Test4_body args w) = (links @ dirs @ [base_dir], w6)"
                  using o base l None g name ll no_abort Cons g5 first t Inl
                  by (simp add: Test4_body_def Let_def)
                then show ?thesis using keep4 [OF run6] by simp
              next
                case (Inr result)
                have "run (\<lambda>c. False) w4 (printf (Time result) w6) []"
                  using run6 run_printf by (rule run_trans0)
                moreover have "snd (Test4_body args w) =
                    (links @ dirs @ [base_dir], printf (Time result) w6)"
                  using o base l None g name ll no_abort Cons g5 first t Inr
                  by (simp add: Test4_body_def Let_def)
                ultimately show ?thesis using keep4 by simp
              qed
            qed
          qed
        qed
      qed
    qed
  qed
qed


lemma Test8_retained: "retained (\<lambda>c. False) w (snd (Test8_body args w))"
proof -
  let ?n = "GetArg args 1 16000" and ?m = "GetArg args 2 1" and ?k = "GetArg args 3 16000"
  let ?name = "wide (bs ''BaseNamedObjects'' @ bs ''A'')"
  obtain r w1 where o: "CreateDirectory ?name nullptr nullptr w = (r, w1)"
    by (cases "CreateDirectory ?name nullptr nullptr w")
  have run1: "run (\<lambda>c. False) w w1 (case r of Inl ex \<Rightarrow> [] | Inr h \<Rightarrow> [h])"
    by (rule CreateDirectory_run [OF _ o]) simp
  show ?thesis
  proof (cases r)
    case (Inl ex)
    then have "snd (Test8_body args w) = ([], w1)"
      using o by (simp add: Test8_body_def)
    moreover have "retained (\<lambda>c. False) w ([], w1)"
      using run1 Inl by (intro retainedI [of _ _ _ "[]"]) simp_all
    ultimately show ?thesis by simp
  next
    case shadow: (Inr shadow_dir)
    have run1: "run (\<lambda>c. False) w w1 [shadow_dir]" using run1 shadow by simp
    obtain r2 w2 where o2: "CreateDirectory (wide ''A'') shadow_dir shadow_dir w1 = (r2, w2)"
      by (cases "CreateDirectory (wide ''A'') shadow_dir shadow_dir w1")
    have run2: "run (\<lambda>c. False) w1 w2 (case r2 of Inl ex \<Rightarrow> [] | Inr h \<Rightarrow> [h])"
      by (rule CreateDirectory_run [OF _ o2]) simp
    show ?thesis
    proof (cases r2)
      case (Inl ex)
      have "run (\<lambda>c. False) w1 w2 []" using run2 Inl by simp
      with run1 have "run (\<lambda>c. False) w w2 [shadow_dir]" by (rule run_trans1)
      then have "retained (\<lambda>c. False) w ([shadow_dir], w2)"
        by (rule retainedI) simp
      moreover have "snd (Test8_body args w) = ([shadow_dir], w2)"
        using o shadow o2 Inl by (simp add: Test8_body_def Let_def)
      ultimately show ?thesis by simp
    next
      case target: (Inr target_dir)
      have "run (\<lambda>c. False) w1 w2 [target_dir]" using run2 target by simp
      with run1 have run2: "run (\<lambda>c. False) w w2 ([shadow_dir] @ [target_dir])" by (rule run_trans)
      obtain a dirs w3 where l: "Test8_dirs_loop 0 ?k shadow_dir [] w2 = (a, dirs, w3)"
        by (cases "Test8_dirs_loop 0 ?k shadow_dir [] w2")
      obtain hs where hs: "run (\<lambda>c. False) w2 (snd (snd (Test8_dirs_loop 0 ?k shadow_dir [] w2))) hs \<and>
          fst (snd (Test8_dirs_loop 0 ?k shadow_dir [] w2)) = [] @ hs"
        using Test8_dirs_loop_run [of w2 0 ?k shadow_dir "[]"] ..
      have dirs: "dirs = hs" using hs l by simp
      have "run (\<lambda>c. False) w2 w3 dirs" using hs l by simp
      with run2 have run3: "run (\<lambda>c. False) w w3 (([shadow_dir] @ [target_dir]) @ dirs)"
        by (rule run_trans)
      show ?thesis
      proof (cases a)
        case (Some ab)
        have "retained (\<lambda>c. False) w (dirs @ [target_dir, shadow_dir], w3)"
          using run3 by (rule retainedI) simp
        moreover have "snd (Test8_body args w) = (dirs @ [target_dir, shadow_dir], w3)"
          using o shadow o2 target l Some by (simp add: Test8_body_def Let_def)
        ultimately show ?thesis by simp
      next
        case None
        let ?last = "append_A_loop 0 ?n ?name"
        let ?w4 = "printf (Text ''Created directories\<newline>'') w3"
        obtain a5 links w5 where ll: "links_loop 0 ?m shadow_dir ?last [] ?w4 = (a5, links, w5)"
          by (cases "links_loop 0 ?m shadow_dir ?last [] ?w4")
        obtain ls where ls: "run (\<lambda>c. False) ?w4 (snd (snd (links_loop 0 ?m shadow_dir ?last [] ?w4))) ls \<and>
            fst (snd (links_loop 0 ?m shadow_dir ?last [] ?w4)) = [] @ ls"
          using links_loop_run [of ?w4 0 ?m shadow_dir ?last "[]"] ..
        have links: "links = ls" using ls ll by simp
        have "run (\<lambda>c. False) ?w4 w5 links" using ls ll by simp
        with run_printf have "run (\<lambda>c. False) w3 w5 links" by (rule run_trans0)
        with run3 have run5: "run (\<lambda>c. False) w w5 ((([shadow_dir] @ [target_dir]) @ dirs) @ links)"
          by (rule run_trans)
        have keep5: "retained (\<lambda>c. False) w (links @ dirs @ [target_dir, shadow_dir], w')"
          if "run (\<lambda>c. False) w5 w' []" for w'
        proof -
          have "run (\<lambda>c. False) w w' ((([shadow_dir] @ [target_dir]) @ dirs) @ links)"
            using run5 that by (rule run_trans1)
          then show ?thesis by (rule retainedI) simp
        qed
        show ?thesis
        proof (cases a5)
          case (Some ab)
          have "snd (Test8_body args w) = (links @ dirs @ [target_dir, shadow_dir], w5)"
            using o shadow o2 target l None ll Some by (simp add: Test8_body_def Let_def)
          then show ?thesis using keep5 [of w5] by simp
        next
          case no_abort: None
          obtain r6 w6 where t: "RunTest (?last @ wide (bs ''0'')) 1 (IntToString ?m) shadow_dir w5 = (r6, w6)"
            by (cases "RunTest (?last @ wide (bs ''0'')) 1 (IntToString ?m) shadow_dir w5")
          have run6: "run (\<lambda>c. False) w5 w6 []" by (rule RunTest_run [OF t])
          show ?thesis
          proof (cases r6)
            case (Inl ex)
            have "snd (Test8_body args w) = (links @ dirs @ [target_dir, shadow_dir], w6)"
              using o shadow o2 target l None ll no_abort t Inl
              by (simp add: Test8_body_def Let_def)
            then show ?thesis using keep5 [OF run6] by simp
          next
            case (Inr result)
            have "run (\<lambda>c. False) w5 (printf (Time result) w6) []"
              using run6 run_printf by (rule run_trans0)
            moreover have "snd (Test8_body args w) =
                (links @ dirs @ [target_dir, shadow_dir], printf (Time result) w6)"
              using o shadow o2 target l None ll no_abort t Inr
              by (simp add: Test8_body_def Let_def)
            ultimately show ?thesis using keep5 by simp
          qed
        qed
      qed
    qed
  qed
qed

lemma scope_exits:
  "trace (snd (Test3 args w)) = scope_exit (snd (Test3_body args w))"
  "trace (snd (Test5 args w)) = scope_exit (snd (Test5_body args w))"
  "trace (snd (Test6 args w)) = scope_exit (snd (Test6_body args w))"
  by (simp_all add: Test3_def Test5_def Test6_def scope_exit_def
      destroy_all_closing split: prod.splits)

lemma scope_exits_defined:
  "fst (Test4_body args w) \<noteq> Some Undefined \<longrightarrow>
     trace (snd (Test4 args w)) = scope_exit (snd (Test4_body args w))"
  "fst (Test7_body args w) \<noteq> Some Undefined \<longrightarrow>
     trace (snd (Test7 args w)) = scope_exit (snd (Test7_body args w))"
  "fst (Test8_body args w) \<noteq> Some Undefined \<longrightarrow>
     trace (snd (Test8 args w)) = scope_exit (snd (Test8_body args w))"
  by (simp_all add: Test4_def Test7_def Test8_def scope_exit_def
      destroy_all_closing split: prod.splits)

lemma scope_exits_undefined:
  "fst (Test4_body args w) = Some Undefined \<longrightarrow>
     Test4 args w = (Some Undefined, snd (snd (Test4_body args w)))"
  "fst (Test7_body args w) = Some Undefined \<longrightarrow>
     Test7 args w = (Some Undefined, snd (snd (Test7_body args w)))"
  "fst (Test8_body args w) = Some Undefined \<longrightarrow>
     Test8 args w = (Some Undefined, snd (snd (Test8_body args w)))"
  by (simp_all add: Test4_def Test7_def Test8_def split: prod.splits)


text \<open>
  Claim C2, as stated, fails. With \<open>iterations = 1\<close> and \<open>collision_count = 1\<close> the body of
  scenario 5 releases the handle \<open>12\<close>, which its timing loop got from \<open>OpenDirectory\<close>,
  before the scenario completes; and the body of scenario 3 releases the handles \<open>20\<close> and
  \<open>16\<close> that \<open>RunTest\<close> opened and created, when \<open>RunTest\<close> returns.
\<close>

theorem handles_released_before_scope_exit:
  "releases (trace (snd (snd (Test5_body [''1'', ''1''] (sample_world (\<lambda>n. STATUS_SUCCESS)))))) = [12] \<and>
   acquired is_open_directory
     (trace (snd (snd (Test5_body [''1'', ''1''] (sample_world (\<lambda>n. STATUS_SUCCESS)))))) = [12] \<and>
   fst (Test5_body [''1'', ''1''] (sample_world (\<lambda>n. STATUS_SUCCESS))) = None \<and>
   releases (trace (snd (snd (Test3_body [''1'', ''1''] (sample_world (\<lambda>n. STATUS_SUCCESS)))))) =
     [20, 16] \<and>
   acquired is_event
     (trace (snd (snd (Test3_body [''1'', ''1''] (sample_world (\<lambda>n. STATUS_SUCCESS)))))) = [16, 20]"
  by (simp add: Test5_body_def Test5_loop.simps Test5_timing_loop.simps Test3_body_def
      Test3_loop.simps RunTest_loop.simps RunTest_def RunTest_body_def
      MakeCollisionName_def MakeNullString_def MakeNullString_loop.simps
      Timer_start_def GetTime_def GetTime_at_sample_1 [of 0, simplified] CreateDirectory_def OpenDirectory_def CreateEvent_def GetName_def
      native_def now_def printf_def destroy_def destroy_all_def Check_def NT_ERROR_def
      UnicodeString_def GetArg_def atoi_def isspace_def isdigit_def INT_MAX_def INT_MIN_def
      nullptr_def sample_world_def STATUS_SUCCESS_def wide_def bs_def Let_def)

text \<open>
  Claim C2, amended. In every run of every scenario, the handles returned by the
  successful calls that build the topology (create a directory, create a link, open the
  base directory) are exactly the handles that the locals and the vectors of the scenario
  hold when its scope ends, and they are released there, in the order of destruction (a
  run that ends in undefined behaviour is not followed beyond it). Before the scope ends
  the trace of the scenario is scoped: the only handles released are those of the
  measurement, each handle that the timing loop of scenario 5 gets from \<open>OpenDirectory\<close>
  at once, and the handles that \<open>RunTest\<close> opened, first opened first, and then the event
  it created, as soon as \<open>RunTest\<close> has read the clock again or a call of \<open>NtOpenEvent\<close>
  has failed. Nothing is stated of the one release that may follow a call that failed to
  fill the handle it was given. In a run in which every such call succeeded, the handles
  released before the scope ends are therefore the measurement handles acquired, each
  released as often as it was acquired.
\<close>

theorem handles_retained_until_scope_exit:
  "retained (\<lambda>c. False) w ([], snd (Test1 args w)) \<and>
   retained (\<lambda>c. False) w ([], snd (Test2 args w)) \<and>
   retained (\<lambda>c. False) w (snd (Test3_body args w)) \<and>
   trace (snd (Test3 args w)) = scope_exit (snd (Test3_body args w)) \<and>
   retained (\<lambda>c. False) w (snd (Test4_body args w)) \<and>
   (fst (Test4_body args w) \<noteq> Some Undefined \<longrightarrow>
      trace (snd (Test4 args w)) = scope_exit (snd (Test4_body args w))) \<and>
   retained is_open_directory w (snd (Test5_body args w)) \<and>
   trace (snd (Test5 args w)) = scope_exit (snd (Test5_body args w)) \<and>
   retained (\<lambda>c. False) w (snd (Test6_body args w)) \<and>
   trace (snd (Test6 args w)) = scope_exit (snd (Test6_body args w)) \<and>
   retained (\<lambda>c. False) w (snd (Test7_body args w)) \<and>
   (fst (Test7_body args w) \<noteq> Some Undefined \<longrightarrow>
      trace (snd (Test7 args w)) = scope_exit (snd (Test7_body args w))) \<and>
   retained (\<lambda>c. False) w (snd (Test8_body args w)) \<and>
   (fst (Test8_body args w) \<noteq> Some Undefined \<longrightarrow>
      trace (snd (Test8 args w)) = scope_exit (snd (Test8_body args w))) \<and>
   retained (\<lambda>c. False) w ([], snd (RunTest name iterations create_name root_dir w)) \<and>
   (scoped T es \<and> filled es \<longrightarrow>
      count_list (releases es) h =
        count_list (filter (\<lambda>h. h \<noteq> nullptr) (acquired (measuring T) es)) h)"
proof -
  have "run (\<lambda>c. False) w (snd (RunTest name iterations create_name root_dir w)) []"
    by (rule RunTest_run [of name iterations create_name root_dir w "fst (RunTest name iterations create_name root_dir w)"]) simp
  then have rt: "retained (\<lambda>c. False) w ([], snd (RunTest name iterations create_name root_dir w))"
    by (rule retainedI) simp
  have rel: "scoped T es \<and> filled es \<longrightarrow>
      count_list (releases es) h =
        count_list (filter (\<lambda>h. h \<noteq> nullptr) (acquired (measuring T) es)) h"
    using scoped_releases [of T es h] by blast
  show ?thesis
    using Test1_retained [of "\<lambda>c. False" w args] Test2_retained [of "\<lambda>c. False" w args]
      Test3_retained [of w args] Test4_retained [of w args] Test5_retained [of w args]
      Test6_retained [of w args] Test7_retained [of w args] Test8_retained [of w args]
      scope_exits [of args w] scope_exits_defined [of args w] rt rel
    by (intro conjI) assumption+
qed

theorem handles_retained_until_scope_exit_witness:
  "trace (snd (Test5 [''1'', ''1''] (sample_world (\<lambda>n. STATUS_SUCCESS)))) =
     [Call (NtCreateDirectoryObjectEx (wide (bs ''BaseNamedObjects'' @ bs ''A'')) nullptr nullptr)
        \<lparr>r_status = 0, r_handle = 4, r_name = wide (bs ''BaseNamedObjects'' @ bs ''A'')\<rparr>,
      Call (NtCreateDirectoryObjectEx [0, 0x41] 4 nullptr)
        \<lparr>r_status = 0, r_handle = 8, r_name = wide (bs ''BaseNamedObjects'' @ bs ''A'')\<rparr>,
      Now 0,
      Call (NtOpenDirectoryObject [0, 0x41] 4)
        \<lparr>r_status = 0, r_handle = 12, r_name = wide (bs ''BaseNamedObjects'' @ bs ''A'')\<rparr>,
      CloseHandle 12,
      Now 1500,
      Printf (Int_and_time 0 (Finite 1)),
      CloseHandle 8,
      CloseHandle 4] \<and>
   fst (snd (Test5_body [''1'', ''1''] (sample_world (\<lambda>n. STATUS_SUCCESS)))) = [8, 4] \<and>
   count_list (releases (trace (snd (snd (Test5_body [''1'', ''1'']
                                            (sample_world (\<lambda>n. STATUS_SUCCESS))))))) 12 = 1 \<and>
   \<not> scoped is_open_directory
     [Call (NtCreateDirectoryObjectEx (wide (bs ''BaseNamedObjects'' @ bs ''A'')) nullptr nullptr)
        \<lparr>r_status = 0, r_handle = 4, r_name = wide (bs ''BaseNamedObjects'' @ bs ''A'')\<rparr>,
      Call (NtCreateDirectoryObjectEx [0, 0x41] 4 nullptr)
        \<lparr>r_status = 0, r_handle = 8, r_name = wide (bs ''BaseNamedObjects'' @ bs ''A'')\<rparr>,
      Now 0,
      Call (NtOpenDirectoryObject [0, 0x41] 4)
        \<lparr>r_status = 0, r_handle = 12, r_name = wide (bs ''BaseNamedObjects'' @ bs ''A'')\<rparr>,
      Now 1500,
      Printf (Int_and_time 0 (Finite 1))] \<and>
   fst (Test4_body [''1'', ''1'', ''1''] (sample_world (\<lambda>n. STATUS_SUCCESS))) = None \<and>
   fst (snd (Test4_body [''1'', ''1'', ''1''] (sample_world (\<lambda>n. STATUS_SUCCESS)))) = [16, 8, 4] \<and>
   releases (trace (snd (Test4 [''1'', ''1'', ''1''] (sample_world (\<lambda>n. STATUS_SUCCESS))))) =
     [28, 24, 16, 8, 4]"
proof -
  let ?w = "sample_world (\<lambda>n. STATUS_SUCCESS)"
  let ?create4 = "Call (NtCreateDirectoryObjectEx (wide (bs ''BaseNamedObjects'' @ bs ''A'')) nullptr nullptr)
        \<lparr>r_status = 0, r_handle = 4, r_name = wide (bs ''BaseNamedObjects'' @ bs ''A'')\<rparr>"
  let ?create8 = "Call (NtCreateDirectoryObjectEx [0, 0x41] 4 nullptr)
        \<lparr>r_status = 0, r_handle = 8, r_name = wide (bs ''BaseNamedObjects'' @ bs ''A'')\<rparr>"
  let ?open12 = "Call (NtOpenDirectoryObject [0, 0x41] 4)
        \<lparr>r_status = 0, r_handle = 12, r_name = wide (bs ''BaseNamedObjects'' @ bs ''A'')\<rparr>"
  let ?body = "[?create4, ?create8, Now 0, ?open12, CloseHandle 12, Now 1500,
                Printf (Int_and_time 0 (Finite 1))]"
  let ?leak = "[?create4, ?create8, Now 0, ?open12, Now 1500, Printf (Int_and_time 0 (Finite 1))]"
  have body5: "trace (snd (snd (Test5_body [''1'', ''1''] ?w))) = ?body \<and>
     fst (snd (Test5_body [''1'', ''1''] ?w)) = [8, 4]"
    by (simp add: Test5_body_def Test5_loop.simps Test5_timing_loop.simps
      MakeCollisionName_def MakeNullString_def MakeNullString_loop.simps
      Timer_start_def GetTime_def GetTime_at_sample_1 [of 0, simplified] CreateDirectory_def
      OpenDirectory_def native_def now_def printf_def destroy_def Check_def NT_ERROR_def
      UnicodeString_def GetArg_def atoi_def isspace_def isdigit_def INT_MAX_def INT_MIN_def
      nullptr_def sample_world_def STATUS_SUCCESS_def wide_def bs_def Let_def)
  have body4: "fst (Test4_body [''1'', ''1'', ''1''] ?w) = None \<and>
     fst (snd (Test4_body [''1'', ''1'', ''1''] ?w)) = [16, 8, 4] \<and>
     releases (trace (snd (snd (Test4_body [''1'', ''1'', ''1''] ?w)))) = [28, 24]"
    by (simp add: Test4_body_def Test4_dirs_loop.simps links_loop.simps RunTest_loop.simps
      RunTest_def RunTest_body_def Timer_start_def GetTime_def CreateDirectory_def
      OpenDirectory_def CreateEvent_def CreateLink_def GetName_def native_def now_def
      printf_def destroy_def destroy_all_def Check_def NT_ERROR_def UnicodeString_def
      GetArg_def atoi_def isspace_def isdigit_def INT_MAX_def INT_MIN_def nullptr_def
      sample_world_def STATUS_SUCCESS_def wide_def bs_def IntToString_def dec_def
      dec_nat.simps Let_def)
  note inst = handles_retained_until_scope_exit
    [where w = ?w and args = "[''1'', ''1'']" and T = is_open_directory and es = ?body and h = 12
       and name = "[]" and iterations = 0 and create_name = "[]" and root_dir = nullptr]
  have t5: "trace (snd (Test5 [''1'', ''1''] ?w)) = scope_exit (snd (Test5_body [''1'', ''1''] ?w))"
    using inst by (elim conjE)
  have "retained is_open_directory ?w (snd (Test5_body [''1'', ''1''] ?w))"
    using inst by (elim conjE)
  then obtain es where es: "trace (snd (snd (Test5_body [''1'', ''1''] ?w))) = trace ?w @ es"
      and sc: "scoped is_open_directory es"
    unfolding retained_def by blast
  have "trace ?w = []" by (simp add: sample_world_def)
  then have "es = ?body" using es body5 by simp
  then have s5: "scoped is_open_directory ?body" using sc by simp
  have filled5: "filled ?body" and filled_leak: "filled ?leak"
    by (simp_all add: NT_ERROR_def)
  have "scoped is_open_directory ?body \<and> filled ?body \<longrightarrow>
          count_list (releases ?body) 12 =
          count_list (filter (\<lambda>h. h \<noteq> nullptr) (acquired (measuring is_open_directory) ?body)) 12"
    using inst by (elim conjE)
  then have "count_list (releases ?body) 12 =
          count_list (filter (\<lambda>h. h \<noteq> nullptr) (acquired (measuring is_open_directory) ?body)) 12"
    using s5 filled5 by (simp only: simp_thms)
  then have count5: "count_list (releases ?body) 12 = 1"
    by (simp add: measuring_def temporaries_def NT_ERROR_def nullptr_def)
  have leak: "\<not> scoped is_open_directory ?leak"
  proof
    assume a: "scoped is_open_directory ?leak"
    have "scoped is_open_directory ?leak \<and> filled ?leak \<longrightarrow>
          count_list (releases ?leak) 12 =
          count_list (filter (\<lambda>h. h \<noteq> nullptr) (acquired (measuring is_open_directory) ?leak)) 12"
      using handles_retained_until_scope_exit
              [where w = ?w and args = "[]" and T = is_open_directory and es = ?leak and h = 12
                 and name = "[]" and iterations = 0 and create_name = "[]" and root_dir = nullptr]
      by (elim conjE)
    then have "count_list (releases ?leak) 12 =
                 count_list (filter (\<lambda>h. h \<noteq> nullptr) (acquired (measuring is_open_directory) ?leak)) 12"
      using a filled_leak by (simp only: simp_thms)
    then show False
      by (simp add: measuring_def temporaries_def NT_ERROR_def nullptr_def)
  qed
  have "fst (Test4_body [''1'', ''1'', ''1''] ?w) \<noteq> Some Undefined \<longrightarrow>
          trace (snd (Test4 [''1'', ''1'', ''1''] ?w)) =
            scope_exit (snd (Test4_body [''1'', ''1'', ''1''] ?w))"
    using handles_retained_until_scope_exit
            [where w = ?w and args = "[''1'', ''1'', ''1'']" and T = is_open_directory
               and es = "[]" and h = 0
               and name = "[]" and iterations = 0 and create_name = "[]" and root_dir = nullptr]
    by (elim conjE)
  then have t4: "trace (snd (Test4 [''1'', ''1'', ''1''] ?w)) =
              scope_exit (snd (Test4_body [''1'', ''1'', ''1''] ?w))"
    using body4 by simp
  have r4: "releases (trace (snd (Test4 [''1'', ''1'', ''1''] ?w))) = [28, 24, 16, 8, 4]"
    unfolding t4 scope_exit_def using body4 by (simp add: nullptr_def)
  have full5: "trace (snd (Test5 [''1'', ''1''] ?w)) = ?body @ [CloseHandle 8, CloseHandle 4]"
    unfolding t5 scope_exit_def closing_def using body5 by (simp add: nullptr_def)
  show ?thesis
    using full5 body5 count5 leak body4 r4 by simp
qed

end
